theory Spec2Isabelle
  imports Main "HOL-Library.Word" "HOL-Library.Multiset" "HOL-Library.List_Lexorder"
begin

section \<open>Data model of the GRP and MVL archivers\<close>

text \<open>
  The two drivers \<^verbatim>\<open>grp.c\<close> and \<^verbatim>\<open>mvl.c\<close> are the same code up to the
  signature, the record layout and the comparison function. \<^verbatim>\<open>GRPentry\<close> and
  \<^verbatim>\<open>MVLentry\<close> are the same struct, as are the info and fileinfo structs, so one
  record serves both. A name is the C string held in \<^verbatim>\<open>name[13]\<close>: the bytes
  before the terminating NUL. \<^verbatim>\<open>PHYSFS_uint32\<close> is \<open>32 word\<close>,
  \<^verbatim>\<open>PHYSFS_uint64\<close> is \<open>64 word\<close>, \<^verbatim>\<open>PHYSFS_sint32\<close> and
  \<^verbatim>\<open>PHYSFS_sint64\<close> values are read as \<open>int\<close>.
\<close>

type_synonym uint32 = "32 word"
type_synonym uint64 = "64 word"

record entry =
  name :: string
  startPos :: uint32
  size' :: uint32

type_synonym GRPentry = entry
type_synonym MVLentry = entry

record archive_info =
  filename :: string
  last_mod_time :: int
  entryCount :: uint32
  entries :: "entry list"

type_synonym GRPinfo = archive_info
type_synonym MVLinfo = archive_info

record fileinfo =
  handle :: nat
  entry :: entry
  curPos :: uint32

type_synonym GRPfileinfo = fileinfo
type_synonym MVLfileinfo = fileinfo

text \<open>
  The error codes the two files pass to \<^verbatim>\<open>BAIL_MACRO\<close>, \<^verbatim>\<open>BAIL_IF_MACRO\<close>
  and \<^verbatim>\<open>__PHYSFS_setError\<close>. \<open>ERR_PLATFORM\<close> stands for the \<^verbatim>\<open>NULL\<close>
  error argument: the call fails and the error state is whatever the platform call left.
  \<open>TRAP_DIVIDE_BY_ZERO\<close> is the integer division by \<^verbatim>\<open>objSize = 0\<close> in the
  read method, \<open>TRAP_OUT_OF_BOUNDS\<close> an access to \<^verbatim>\<open>a[middle]\<close> outside the
  entry array.
\<close>

datatype error =
    ERR_NOT_SUPPORTED
  | ERR_INVALID_ARGUMENT
  | ERR_PAST_EOF
  | ERR_ARC_IS_READ_ONLY
  | ERR_UNSUPPORTED_ARCHIVE
  | ERR_OUT_OF_MEMORY
  | ERR_NO_SUCH_FILE
  | ERR_NOT_A_DIR
  | ERR_PLATFORM
  | TRAP_DIVIDE_BY_ZERO
  | TRAP_OUT_OF_BOUNDS


section \<open>The platform layer\<close>

text \<open>
  The platform primitives are declared in \<^verbatim>\<open>physfs_internal.h\<close> and implemented per
  operating system; the drivers only call them. The state they act on is the set of files
  on disk and the table of open read handles, each with its own position.
\<close>

record platform_handle =
  h_bytes :: "char list"
  h_pos :: nat

record world =
  w_files :: "string \<rightharpoonup> char list"
  w_open :: "nat \<rightharpoonup> platform_handle"
  w_next :: nat

text \<open>
  Modelled from the spec: \<^verbatim>\<open>__PHYSFS_platformOpenRead\<close> (``opens the path for raw
  byte reading''); it returns a fresh handle at position 0, or \<^verbatim>\<open>NULL\<close> when the
  path names no file.
\<close>

definition platformOpenRead :: "world \<Rightarrow> string \<Rightarrow> world \<times> nat option" where
  "platformOpenRead w fname =
     (case w_files w fname of
        None \<Rightarrow> (w, None)
      | Some bs \<Rightarrow>
          (w\<lparr>w_open := (w_open w)(w_next w \<mapsto> \<lparr>h_bytes = bs, h_pos = 0\<rparr>),
              w_next := Suc (w_next w)\<rparr>,
           Some (w_next w)))"

text \<open>
  Modelled from the spec: \<^verbatim>\<open>__PHYSFS_platformRead\<close>
  (\<^verbatim>\<open>read(handle, buf, objSize, objCount) -> objectsRead\<close>). It transfers as many
  whole objects as the file still holds, at most \<open>objCount\<close>, advances the handle by
  the bytes transferred and returns the number of objects with the bytes; on a handle that
  is not open it returns \<open>-1\<close>.
\<close>

definition platformRead :: "world \<Rightarrow> nat \<Rightarrow> nat \<Rightarrow> nat \<Rightarrow> world \<times> int \<times> char list" where
  "platformRead w fh objSize objCount =
     (case w_open w fh of
        None \<Rightarrow> (w, - 1, [])
      | Some h \<Rightarrow>
          (let avail = length (h_bytes h) - h_pos h;
               n = min objCount (avail div objSize);
               got = take (n * objSize) (drop (h_pos h) (h_bytes h))
           in (w\<lparr>w_open := (w_open w)(fh \<mapsto> h\<lparr>h_pos := h_pos h + n * objSize\<rparr>)\<rparr>,
               int n, got)))"

text \<open>
  Modelled from the spec: \<^verbatim>\<open>__PHYSFS_platformSeek\<close>
  (\<^verbatim>\<open>seek(handle, absoluteOffset) -> bool\<close>); it fails on a handle that is not open.
\<close>

definition platformSeek :: "world \<Rightarrow> nat \<Rightarrow> uint64 \<Rightarrow> world \<times> bool" where
  "platformSeek w fh p =
     (case w_open w fh of
        None \<Rightarrow> (w, False)
      | Some h \<Rightarrow> (w\<lparr>w_open := (w_open w)(fh \<mapsto> h\<lparr>h_pos := unat p\<rparr>)\<rparr>, True))"

text \<open>
  Modelled from the spec: \<^verbatim>\<open>__PHYSFS_platformClose\<close>
  (\<^verbatim>\<open>close(handle) -> bool\<close>); it removes the handle from the table of open handles.
\<close>

definition platformClose :: "world \<Rightarrow> nat \<Rightarrow> world \<times> bool" where
  "platformClose w fh =
     (case w_open w fh of
        None \<Rightarrow> (w, False)
      | Some h \<Rightarrow> (w\<lparr>w_open := (w_open w)(fh := None)\<rparr>, True))"

text \<open>
  Modelled from the spec: \<^verbatim>\<open>PHYSFS_swapULE32\<close> applied to four bytes read into a
  \<^verbatim>\<open>PHYSFS_uint32\<close> (``a 4-byte little-endian unsigned integer; byte order is
  canonicalized regardless of host endianness'').
\<close>

definition swapULE32 :: "char list \<Rightarrow> uint32" where
  "swapULE32 bs =
     (case bs of
        [b0, b1, b2, b3] \<Rightarrow>
          of_nat (of_char b0 + 256 * of_char b1 + 65536 * of_char b2 + 16777216 * of_char b3)
      | _ \<Rightarrow> 0)"


section \<open>C strings\<close>

text \<open>
  \<^verbatim>\<open>strcmp\<close> of the C library on the contents of two C strings: the difference of
  the first pair of differing bytes read as \<^verbatim>\<open>unsigned char\<close>; a proper prefix is
  smaller. Only the sign is used by the callers.
\<close>

fun strcmp :: "string \<Rightarrow> string \<Rightarrow> int" where
  "strcmp [] [] = 0"
| "strcmp [] (y # ys) = - 1"
| "strcmp (x # xs) [] = 1"
| "strcmp (x # xs) (y # ys) =
     (if x = y then strcmp xs ys else int (of_char x) - int (of_char y))"

definition tolower :: "char \<Rightarrow> char" where
  "tolower c =
     (if (65::nat) \<le> of_char c \<and> of_char c \<le> (90::nat)
      then char_of (of_char c + (32::nat)) else c)"

text \<open>
  Modelled from the spec: \<^verbatim>\<open>__PHYSFS_platformStricmp\<close> (``locale-independent
  case-folding comparison''): \<^verbatim>\<open>strcmp\<close> after folding the ASCII letters of both
  strings to lower case.
\<close>

definition platformStricmp :: "string \<Rightarrow> string \<Rightarrow> int" where
  "platformStricmp a b = strcmp (map tolower a) (map tolower b)"

text \<open>\<^verbatim>\<open>strchr(s, c) != NULL\<close> and \<^verbatim>\<open>strlen(strchr(s, c))\<close>.\<close>

definition strchr :: "string \<Rightarrow> char \<Rightarrow> string option" where
  "strchr s c = (if c \<in> set s then Some (dropWhile (\<lambda>x. x \<noteq> c) s) else None)"


section \<open>The archive opener\<close>

definition grp_open :: "world \<Rightarrow> string \<Rightarrow> bool \<Rightarrow> world \<times> (error + nat \<times> uint32)" where
  "grp_open w fname forWriting =
     (if forWriting then (w, Inl ERR_ARC_IS_READ_ONLY)
      else case platformOpenRead w fname of
          (w1, None) \<Rightarrow> (w1, Inl ERR_PLATFORM)
        | (w1, Some fh) \<Rightarrow>
            (case platformRead w1 fh 12 1 of
               (w2, rc, buf) \<Rightarrow>
                 if rc \<noteq> 1 then (fst (platformClose w2 fh), Inl ERR_PLATFORM)
                 else if buf \<noteq> ''KenSilverman''
                 then (fst (platformClose w2 fh), Inl ERR_UNSUPPORTED_ARCHIVE)
                 else (case platformRead w2 fh 4 1 of
                         (w3, rc', cnt) \<Rightarrow>
                           if rc' \<noteq> 1 then (fst (platformClose w3 fh), Inl ERR_PLATFORM)
                           else (w3, Inr (fh, swapULE32 cnt)))))"

definition mvl_open :: "world \<Rightarrow> string \<Rightarrow> bool \<Rightarrow> world \<times> (error + nat \<times> uint32)" where
  "mvl_open w fname forWriting =
     (if forWriting then (w, Inl ERR_ARC_IS_READ_ONLY)
      else case platformOpenRead w fname of
          (w1, None) \<Rightarrow> (w1, Inl ERR_PLATFORM)
        | (w1, Some fh) \<Rightarrow>
            (case platformRead w1 fh 4 1 of
               (w2, rc, buf) \<Rightarrow>
                 if rc \<noteq> 1 then (fst (platformClose w2 fh), Inl ERR_PLATFORM)
                 else if buf \<noteq> ''DMVL''
                 then (fst (platformClose w2 fh), Inl ERR_UNSUPPORTED_ARCHIVE)
                 else (case platformRead w2 fh 4 1 of
                         (w3, rc', cnt) \<Rightarrow>
                           if rc' \<noteq> 1 then (fst (platformClose w3 fh), Inl ERR_PLATFORM)
                           else (w3, Inr (fh, swapULE32 cnt)))))"

text \<open>
  \<^verbatim>\<open>GRP_isArchive\<close> and \<^verbatim>\<open>MVL_isArchive\<close>: the probe closes the handle that a
  successful open returns.
\<close>

definition GRP_isArchive :: "world \<Rightarrow> string \<Rightarrow> bool \<Rightarrow> world \<times> (error + unit)" where
  "GRP_isArchive w fname forWriting =
     (case grp_open w fname forWriting of
        (w1, Inl e) \<Rightarrow> (w1, Inl e)
      | (w1, Inr (fh, fileCount)) \<Rightarrow> (fst (platformClose w1 fh), Inr ()))"

definition MVL_isArchive :: "world \<Rightarrow> string \<Rightarrow> bool \<Rightarrow> world \<times> (error + unit)" where
  "MVL_isArchive w fname forWriting =
     (case mvl_open w fname forWriting of
        (w1, Inl e) \<Rightarrow> (w1, Inl e)
      | (w1, Inr (fh, fileCount)) \<Rightarrow> (fst (platformClose w1 fh), Inr ()))"


section \<open>The index builder\<close>

text \<open>
  Modelled from the spec: \<^verbatim>\<open>__PHYSFS_sort\<close>, which is defined in the core and not in
  the two drivers (``a generic in-place sort primitive taking a comparator and swap
  callback over an index range''; ``equal-key entries keep a stable relative order'').
  It is an insertion sort on the first \<open>mx\<close> indices: the element at index \<open>i\<close> is
  moved down by swaps with its left neighbour while the comparator says the neighbour is
  greater. The array is touched through the two callbacks only.
\<close>

fun sort_sift ::
  "('a list \<Rightarrow> nat \<Rightarrow> nat \<Rightarrow> int) \<Rightarrow> ('a list \<Rightarrow> nat \<Rightarrow> nat \<Rightarrow> 'a list) \<Rightarrow> 'a list \<Rightarrow> nat \<Rightarrow> 'a list"
where
  "sort_sift cmpfn swapfn a 0 = a"
| "sort_sift cmpfn swapfn a (Suc j) =
     (if cmpfn a j (Suc j) > 0 then sort_sift cmpfn swapfn (swapfn a j (Suc j)) j else a)"

fun sort_from ::
  "('a list \<Rightarrow> nat \<Rightarrow> nat \<Rightarrow> int) \<Rightarrow> ('a list \<Rightarrow> nat \<Rightarrow> nat \<Rightarrow> 'a list) \<Rightarrow> 'a list \<Rightarrow> nat \<Rightarrow> nat \<Rightarrow> 'a list"
where
  "sort_from cmpfn swapfn a i 0 = a"
| "sort_from cmpfn swapfn a i (Suc n) =
     sort_from cmpfn swapfn (sort_sift cmpfn swapfn a i) (Suc i) n"

definition PHYSFS_sort ::
  "'a list \<Rightarrow> nat \<Rightarrow> ('a list \<Rightarrow> nat \<Rightarrow> nat \<Rightarrow> int) \<Rightarrow> ('a list \<Rightarrow> nat \<Rightarrow> nat \<Rightarrow> 'a list) \<Rightarrow> 'a list"
where
  "PHYSFS_sort a mx cmpfn swapfn = sort_from cmpfn swapfn a 0 mx"

definition grp_entry_cmp :: "entry list \<Rightarrow> nat \<Rightarrow> nat \<Rightarrow> int" where
  "grp_entry_cmp a one two = strcmp (name (a ! one)) (name (a ! two))"

definition grp_entry_swap :: "entry list \<Rightarrow> nat \<Rightarrow> nat \<Rightarrow> entry list" where
  "grp_entry_swap a one two = a[one := a ! two, two := a ! one]"

definition mvl_entry_cmp :: "entry list \<Rightarrow> nat \<Rightarrow> nat \<Rightarrow> int" where
  "mvl_entry_cmp a one two =
     (if one \<noteq> two then strcmp (name (a ! one)) (name (a ! two)) else 0)"

definition mvl_entry_swap :: "entry list \<Rightarrow> nat \<Rightarrow> nat \<Rightarrow> entry list" where
  "mvl_entry_swap a one two =
     (if one \<noteq> two then a[one := a ! two, two := a ! one] else a)"

text \<open>
  The \<^verbatim>\<open>for\<close> loop of \<^verbatim>\<open>grp_load_entries\<close>: \<open>fileCount\<close> counts down, each round
  fills the next slot of the array, so the list is in on-disk order. A short read closes
  the handle and fails. The name is the C string left in \<^verbatim>\<open>name[13]\<close> after
  \<^verbatim>\<open>name[12] = '\0'\<close> and after the first space was overwritten with NUL.
\<close>

fun grp_read_loop :: "world \<Rightarrow> nat \<Rightarrow> nat \<Rightarrow> uint32 \<Rightarrow> world \<times> (error + entry list)" where
  "grp_read_loop w fh 0 location = (w, Inr [])"
| "grp_read_loop w fh (Suc fileCount) location =
     (case platformRead w fh 12 1 of
        (w1, rc, nm) \<Rightarrow>
          if rc \<noteq> 1 then (fst (platformClose w1 fh), Inl ERR_PLATFORM)
          else (case platformRead w1 fh 4 1 of
                  (w2, rc', sz) \<Rightarrow>
                    if rc' \<noteq> 1 then (fst (platformClose w2 fh), Inl ERR_PLATFORM)
                    else (let e = \<lparr>name = takeWhile (\<lambda>c. c \<noteq> CHR 0x00 \<and> c \<noteq> CHR '' '') nm,
                                   startPos = location,
                                   size' = swapULE32 sz\<rparr>
                          in case grp_read_loop w2 fh fileCount (location + size' e) of
                               (w3, Inl err) \<Rightarrow> (w3, Inl err)
                             | (w3, Inr es) \<Rightarrow> (w3, Inr (e # es)))))"

text \<open>
  \<^verbatim>\<open>grp_load_entries\<close>; \<open>malloc_ok\<close> says whether the allocation of the entry array
  succeeds. The result carries the on-disk-order array next to the info, whose
  \<open>entries\<close> are that array sorted.
\<close>

definition grp_load_entries ::
  "world \<Rightarrow> string \<Rightarrow> bool \<Rightarrow> bool \<Rightarrow> archive_info \<Rightarrow> world \<times> (error + archive_info)"
where
  "grp_load_entries w fname forWriting malloc_ok info =
     (case grp_open w fname forWriting of
        (w1, Inl e) \<Rightarrow> (w1, Inl e)
      | (w1, Inr (fh, fileCount)) \<Rightarrow>
          if \<not> malloc_ok then (fst (platformClose w1 fh), Inl ERR_OUT_OF_MEMORY)
          else (case grp_read_loop w1 fh (unat fileCount) (16 + 16 * fileCount) of
                  (w2, Inl e) \<Rightarrow> (w2, Inl e)
                | (w2, Inr es) \<Rightarrow>
                    (fst (platformClose w2 fh),
                     Inr (info\<lparr>entryCount := fileCount,
                               entries := PHYSFS_sort es (unat fileCount)
                                            grp_entry_cmp grp_entry_swap\<rparr>))))"

text \<open>
  The loop of \<^verbatim>\<open>mvl_load_entries\<close> reads 13 name bytes and does not touch them; the
  name is the C string in the field, the bytes before its first NUL. (A field without a
  NUL is not a C string; what \<^verbatim>\<open>strcmp\<close> reads then depends on the struct layout
  and is left out.)
\<close>

fun mvl_read_loop :: "world \<Rightarrow> nat \<Rightarrow> nat \<Rightarrow> uint32 \<Rightarrow> world \<times> (error + entry list)" where
  "mvl_read_loop w fh 0 location = (w, Inr [])"
| "mvl_read_loop w fh (Suc fileCount) location =
     (case platformRead w fh 13 1 of
        (w1, rc, nm) \<Rightarrow>
          if rc \<noteq> 1 then (fst (platformClose w1 fh), Inl ERR_PLATFORM)
          else (case platformRead w1 fh 4 1 of
                  (w2, rc', sz) \<Rightarrow>
                    if rc' \<noteq> 1 then (fst (platformClose w2 fh), Inl ERR_PLATFORM)
                    else (let e = \<lparr>name = takeWhile (\<lambda>c. c \<noteq> CHR 0x00) nm,
                                   startPos = location,
                                   size' = swapULE32 sz\<rparr>
                          in case mvl_read_loop w2 fh fileCount (location + size' e) of
                               (w3, Inl err) \<Rightarrow> (w3, Inl err)
                             | (w3, Inr es) \<Rightarrow> (w3, Inr (e # es)))))"

definition mvl_load_entries ::
  "world \<Rightarrow> string \<Rightarrow> bool \<Rightarrow> bool \<Rightarrow> archive_info \<Rightarrow> world \<times> (error + archive_info)"
where
  "mvl_load_entries w fname forWriting malloc_ok info =
     (case mvl_open w fname forWriting of
        (w1, Inl e) \<Rightarrow> (w1, Inl e)
      | (w1, Inr (fh, fileCount)) \<Rightarrow>
          if \<not> malloc_ok then (fst (platformClose w1 fh), Inl ERR_OUT_OF_MEMORY)
          else (case mvl_read_loop w1 fh (unat fileCount) (8 + 17 * fileCount) of
                  (w2, Inl e) \<Rightarrow> (w2, Inl e)
                | (w2, Inr es) \<Rightarrow>
                    (fst (platformClose w2 fh),
                     Inr (info\<lparr>entryCount := fileCount,
                               entries := PHYSFS_sort es (unat fileCount)
                                            mvl_entry_cmp mvl_entry_swap\<rparr>))))"

text \<open>
  The array in on-disk order, before \<^verbatim>\<open>__PHYSFS_sort\<close> reorders it: what the loop of
  the loader has filled in when it ends.
\<close>

definition grp_disk_order :: "world \<Rightarrow> string \<Rightarrow> error + entry list" where
  "grp_disk_order w fname =
     (case grp_open w fname False of
        (w1, Inl e) \<Rightarrow> Inl e
      | (w1, Inr (fh, fileCount)) \<Rightarrow>
          snd (grp_read_loop w1 fh (unat fileCount) (16 + 16 * fileCount)))"

definition mvl_disk_order :: "world \<Rightarrow> string \<Rightarrow> error + entry list" where
  "mvl_disk_order w fname =
     (case mvl_open w fname False of
        (w1, Inl e) \<Rightarrow> Inl e
      | (w1, Inr (fh, fileCount)) \<Rightarrow>
          snd (mvl_read_loop w1 fh (unat fileCount) (8 + 17 * fileCount)))"


section \<open>The archive container\<close>

text \<open>
  The \<^verbatim>\<open>while (lo <= hi)\<close> loop of \<^verbatim>\<open>grp_find_entry\<close> and \<^verbatim>\<open>mvl_find_entry\<close>,
  which differ in the comparison function only. \<open>lo\<close>, \<open>hi\<close> and \<open>middle\<close> are
  the \<^verbatim>\<open>PHYSFS_sint32\<close> variables; with \<open>0 \<le> lo\<close> and \<open>hi < 2 ^ 31\<close> no step
  leaves \<open>- 1 .. 2 ^ 31\<close>, and \<open>(hi - lo) / 2\<close> is the division of a non-negative
  number. The first component of the result lists the indices \<open>middle\<close> at which the
  array was read, in order.
\<close>

definition probe :: "int \<Rightarrow> int list \<times> 'a \<Rightarrow> int list \<times> 'a" where
  "probe m r = (m # fst r, snd r)"

function find_loop ::
  "(string \<Rightarrow> string \<Rightarrow> int) \<Rightarrow> entry list \<Rightarrow> string \<Rightarrow> int \<Rightarrow> int \<Rightarrow> int list \<times> (error + entry)"
where
  "find_loop cmp a nm lo hi =
     (if lo \<le> hi then
        (let middle = lo + (hi - lo) div 2 in
         if \<not> (0 \<le> middle \<and> nat middle < length a) then ([middle], Inl TRAP_OUT_OF_BOUNDS)
         else (let rc = cmp nm (name (a ! nat middle)) in
               if rc = 0 then ([middle], Inr (a ! nat middle))
               else if rc > 0 then probe middle (find_loop cmp a nm (middle + 1) hi)
               else probe middle (find_loop cmp a nm lo (middle - 1))))
      else ([], Inl ERR_NO_SUCH_FILE))"
  by pat_completeness auto
termination
  by (relation "measure (\<lambda>(cmp, a, nm, lo, hi). nat (hi - lo + 1))") auto

definition grp_find_entry :: "archive_info \<Rightarrow> string \<Rightarrow> int list \<times> (error + entry)" where
  "grp_find_entry info nm =
     (let ptr = strchr nm (CHR ''.'');
          a = entries info;
          lo = 0;
          hi = sint (entryCount info - 1)
      in if (case ptr of Some p \<Rightarrow> length p > 4 | None \<Rightarrow> False) then ([], Inl ERR_NO_SUCH_FILE)
         else if length nm > 12 then ([], Inl ERR_NO_SUCH_FILE)
         else if strchr nm (CHR ''/'') \<noteq> None then ([], Inl ERR_NO_SUCH_FILE)
         else find_loop strcmp a nm lo hi)"

definition mvl_find_entry :: "archive_info \<Rightarrow> string \<Rightarrow> int list \<times> (error + entry)" where
  "mvl_find_entry info nm =
     (let ptr = strchr nm (CHR ''.'');
          a = entries info;
          lo = 0;
          hi = sint (entryCount info - 1)
      in if (case ptr of Some p \<Rightarrow> length p > 4 | None \<Rightarrow> False) then ([], Inl ERR_NO_SUCH_FILE)
         else if length nm > 12 then ([], Inl ERR_NO_SUCH_FILE)
         else if strchr nm (CHR ''/'') \<noteq> None then ([], Inl ERR_NO_SUCH_FILE)
         else find_loop platformStricmp a nm lo hi)"

definition GRP_exists :: "archive_info \<Rightarrow> string \<Rightarrow> bool" where
  "GRP_exists h nm = (case snd (grp_find_entry h nm) of Inr e \<Rightarrow> True | Inl err \<Rightarrow> False)"

definition MVL_exists :: "archive_info \<Rightarrow> string \<Rightarrow> bool" where
  "MVL_exists h nm = (case snd (mvl_find_entry h nm) of Inr e \<Rightarrow> True | Inl err \<Rightarrow> False)"

text \<open>
  \<^verbatim>\<open>GRP_openRead\<close> and \<^verbatim>\<open>MVL_openRead\<close>; \<open>m1\<close> and \<open>m2\<close> say whether the two
  allocations succeed. The second component is \<^verbatim>\<open>*fileExists\<close>.
\<close>

definition GRP_openRead ::
  "world \<Rightarrow> archive_info \<Rightarrow> string \<Rightarrow> bool \<Rightarrow> bool \<Rightarrow> world \<times> bool \<times> (error + fileinfo)"
where
  "GRP_openRead w h fnm m1 m2 =
     (case snd (grp_find_entry h fnm) of
        Inl err \<Rightarrow> (w, False, Inl err)
      | Inr e \<Rightarrow>
          if \<not> m1 then (w, True, Inl ERR_OUT_OF_MEMORY)
          else if \<not> m2 then (w, True, Inl ERR_OUT_OF_MEMORY)
          else (case platformOpenRead w (filename h) of
                  (w1, None) \<Rightarrow> (w1, True, Inl ERR_PLATFORM)
                | (w1, Some fh) \<Rightarrow>
                    (case platformSeek w1 fh (ucast (startPos e)) of
                       (w2, ok) \<Rightarrow>
                         if \<not> ok then (w2, True, Inl ERR_PLATFORM)
                         else (w2, True, Inr \<lparr>handle = fh, entry = e, curPos = 0\<rparr>))))"

definition MVL_openRead ::
  "world \<Rightarrow> archive_info \<Rightarrow> string \<Rightarrow> bool \<Rightarrow> bool \<Rightarrow> world \<times> bool \<times> (error + fileinfo)"
where
  "MVL_openRead w h fnm m1 m2 =
     (case snd (mvl_find_entry h fnm) of
        Inl err \<Rightarrow> (w, False, Inl err)
      | Inr e \<Rightarrow>
          if \<not> m1 then (w, True, Inl ERR_OUT_OF_MEMORY)
          else if \<not> m2 then (w, True, Inl ERR_OUT_OF_MEMORY)
          else (case platformOpenRead w (filename h) of
                  (w1, None) \<Rightarrow> (w1, True, Inl ERR_PLATFORM)
                | (w1, Some fh) \<Rightarrow>
                    (case platformSeek w1 fh (ucast (startPos e)) of
                       (w2, ok) \<Rightarrow>
                         if \<not> ok then (w2, True, Inl ERR_PLATFORM)
                         else (w2, True, Inr \<lparr>handle = fh, entry = e, curPos = 0\<rparr>))))"

text \<open>
  The write family. Each function is a single \<^verbatim>\<open>BAIL_MACRO(ERR_NOT_SUPPORTED, ...)\<close>;
  the platform state and the container are handed back as they came.
\<close>

definition GRP_openWrite :: "world \<Rightarrow> archive_info \<Rightarrow> string \<Rightarrow> world \<times> archive_info \<times> (error + fileinfo)" where
  "GRP_openWrite w h nm = (w, h, Inl ERR_NOT_SUPPORTED)"

definition GRP_openAppend :: "world \<Rightarrow> archive_info \<Rightarrow> string \<Rightarrow> world \<times> archive_info \<times> (error + fileinfo)" where
  "GRP_openAppend w h nm = (w, h, Inl ERR_NOT_SUPPORTED)"

definition GRP_remove :: "world \<Rightarrow> archive_info \<Rightarrow> string \<Rightarrow> world \<times> archive_info \<times> (error + unit)" where
  "GRP_remove w h nm = (w, h, Inl ERR_NOT_SUPPORTED)"

definition GRP_mkdir :: "world \<Rightarrow> archive_info \<Rightarrow> string \<Rightarrow> world \<times> archive_info \<times> (error + unit)" where
  "GRP_mkdir w h nm = (w, h, Inl ERR_NOT_SUPPORTED)"

definition MVL_openWrite :: "world \<Rightarrow> archive_info \<Rightarrow> string \<Rightarrow> world \<times> archive_info \<times> (error + fileinfo)" where
  "MVL_openWrite w h nm = (w, h, Inl ERR_NOT_SUPPORTED)"

definition MVL_openAppend :: "world \<Rightarrow> archive_info \<Rightarrow> string \<Rightarrow> world \<times> archive_info \<times> (error + fileinfo)" where
  "MVL_openAppend w h nm = (w, h, Inl ERR_NOT_SUPPORTED)"

definition MVL_remove :: "world \<Rightarrow> archive_info \<Rightarrow> string \<Rightarrow> world \<times> archive_info \<times> (error + unit)" where
  "MVL_remove w h nm = (w, h, Inl ERR_NOT_SUPPORTED)"

definition MVL_mkdir :: "world \<Rightarrow> archive_info \<Rightarrow> string \<Rightarrow> world \<times> archive_info \<times> (error + unit)" where
  "MVL_mkdir w h nm = (w, h, Inl ERR_NOT_SUPPORTED)"


section \<open>The entry file handle\<close>

text \<open>
  \<^verbatim>\<open>GRP_read\<close>: \<open>bytesLeft\<close> and \<open>objsLeft\<close> are unsigned 32-bit; the result is
  the platform's return value \<open>rc\<close> (objects read, or \<open>-1\<close>) with the bytes read, and
  the cursor moves by \<^verbatim>\<open>(PHYSFS_uint32) (rc * objSize)\<close> when \<open>rc > 0\<close>.
\<close>

definition GRP_read ::
  "world \<Rightarrow> fileinfo \<Rightarrow> uint32 \<Rightarrow> uint32 \<Rightarrow> error + world \<times> fileinfo \<times> int \<times> char list"
where
  "GRP_read w finfo objSize objCount =
     (if objSize = 0 then Inl TRAP_DIVIDE_BY_ZERO
      else (let bytesLeft = size' (entry finfo) - curPos finfo;
                objsLeft = bytesLeft div objSize;
                objCount' = (if objsLeft < objCount then objsLeft else objCount)
            in case platformRead w (handle finfo) (unat objSize) (unat objCount') of
                 (w1, rc, buffer) \<Rightarrow>
                   Inr (w1,
                        if rc > 0
                        then finfo\<lparr>curPos := curPos finfo + word_of_int (rc * uint objSize)\<rparr>
                        else finfo,
                        rc, buffer)))"

definition MVL_read ::
  "world \<Rightarrow> fileinfo \<Rightarrow> uint32 \<Rightarrow> uint32 \<Rightarrow> error + world \<times> fileinfo \<times> int \<times> char list"
where
  "MVL_read w finfo objSize objCount =
     (if objSize = 0 then Inl TRAP_DIVIDE_BY_ZERO
      else (let bytesLeft = size' (entry finfo) - curPos finfo;
                objsLeft = bytesLeft div objSize;
                objCount' = (if objsLeft < objCount then objsLeft else objCount)
            in case platformRead w (handle finfo) (unat objSize) (unat objCount') of
                 (w1, rc, buffer) \<Rightarrow>
                   Inr (w1,
                        if rc > 0
                        then finfo\<lparr>curPos := curPos finfo + word_of_int (rc * uint objSize)\<rparr>
                        else finfo,
                        rc, buffer)))"

definition GRP_write ::
  "world \<Rightarrow> fileinfo \<Rightarrow> char list \<Rightarrow> uint32 \<Rightarrow> uint32 \<Rightarrow> world \<times> fileinfo \<times> (error + int)"
where
  "GRP_write w finfo buffer objSize objCount = (w, finfo, Inl ERR_NOT_SUPPORTED)"

definition MVL_write ::
  "world \<Rightarrow> fileinfo \<Rightarrow> char list \<Rightarrow> uint32 \<Rightarrow> uint32 \<Rightarrow> world \<times> fileinfo \<times> (error + int)"
where
  "MVL_write w finfo buffer objSize objCount = (w, finfo, Inl ERR_NOT_SUPPORTED)"

definition GRP_eof :: "fileinfo \<Rightarrow> bool" where
  "GRP_eof finfo = (curPos finfo \<ge> size' (entry finfo))"

definition GRP_tell :: "fileinfo \<Rightarrow> int" where
  "GRP_tell finfo = uint (curPos finfo)"

text \<open>
  \<^verbatim>\<open>GRP_seek\<close>: \<open>offset\<close> is a \<^verbatim>\<open>PHYSFS_uint64\<close>, and the first test compares it
  with 0 as such. \<^verbatim>\<open>entry->startPos + offset\<close> is a 64-bit sum.
\<close>

definition GRP_seek :: "world \<Rightarrow> fileinfo \<Rightarrow> uint64 \<Rightarrow> world \<times> fileinfo \<times> (error + unit)" where
  "GRP_seek w finfo offset =
     (if offset < 0 then (w, finfo, Inl ERR_INVALID_ARGUMENT)
      else if offset \<ge> ucast (size' (entry finfo)) then (w, finfo, Inl ERR_PAST_EOF)
      else (case platformSeek w (handle finfo) (ucast (startPos (entry finfo)) + offset) of
              (w1, rc) \<Rightarrow>
                if rc then (w1, finfo\<lparr>curPos := ucast offset\<rparr>, Inr ())
                else (w1, finfo, Inl ERR_PLATFORM)))"

definition MVL_seek :: "world \<Rightarrow> fileinfo \<Rightarrow> uint64 \<Rightarrow> world \<times> fileinfo \<times> (error + unit)" where
  "MVL_seek w finfo offset =
     (if offset < 0 then (w, finfo, Inl ERR_INVALID_ARGUMENT)
      else if offset \<ge> ucast (size' (entry finfo)) then (w, finfo, Inl ERR_PAST_EOF)
      else (case platformSeek w (handle finfo) (ucast (startPos (entry finfo)) + offset) of
              (w1, rc) \<Rightarrow>
                if rc then (w1, finfo\<lparr>curPos := ucast offset\<rparr>, Inr ())
                else (w1, finfo, Inl ERR_PLATFORM)))"

definition GRP_fileLength :: "fileinfo \<Rightarrow> int" where
  "GRP_fileLength finfo = uint (size' (entry finfo))"

definition GRP_fileClose :: "world \<Rightarrow> fileinfo \<Rightarrow> world \<times> (error + unit)" where
  "GRP_fileClose w finfo =
     (case platformClose w (handle finfo) of
        (w1, ok) \<Rightarrow> if \<not> ok then (w1, Inl ERR_PLATFORM) else (w1, Inr ()))"


section \<open>The directory table as a function of the bytes\<close>

text \<open>
  What the loop of the loader computes, written on the bytes that follow the header
  instead of on a handle: \<open>n\<close> records of 16 (GRP) or 17 (MVL) bytes, \<open>None\<close> when the
  bytes run out. The lemmas \<open>grp_read_loop_parse\<close> and \<open>mvl_read_loop_parse\<close> below prove
  that each loop of the loader returns exactly this.
\<close>

fun grp_parse :: "char list \<Rightarrow> nat \<Rightarrow> uint32 \<Rightarrow> entry list option" where
  "grp_parse bs 0 location = Some []"
| "grp_parse bs (Suc n) location =
     (if length bs < 16 then None
      else (let e = \<lparr>name = takeWhile (\<lambda>c. c \<noteq> CHR 0x00 \<and> c \<noteq> CHR '' '') (take 12 bs),
                     startPos = location,
                     size' = swapULE32 (take 4 (drop 12 bs))\<rparr>
            in map_option ((#) e) (grp_parse (drop 16 bs) n (location + size' e))))"

fun mvl_parse :: "char list \<Rightarrow> nat \<Rightarrow> uint32 \<Rightarrow> entry list option" where
  "mvl_parse bs 0 location = Some []"
| "mvl_parse bs (Suc n) location =
     (if length bs < 17 then None
      else (let e = \<lparr>name = takeWhile (\<lambda>c. c \<noteq> CHR 0x00) (take 13 bs),
                     startPos = location,
                     size' = swapULE32 (take 4 (drop 13 bs))\<rparr>
            in map_option ((#) e) (mvl_parse (drop 17 bs) n (location + size' e))))"

text \<open>
  \<open>laid_out location es\<close>: the entries \<open>es\<close> carry the offsets of a running cursor that
  starts at \<open>location\<close> and moves on by the size of each entry, in 32-bit arithmetic.
\<close>

fun laid_out :: "uint32 \<Rightarrow> entry list \<Rightarrow> bool" where
  "laid_out location [] = True"
| "laid_out location (e # es) = (startPos e = location \<and> laid_out (location + size' e) es)"

text \<open>The key by which \<^verbatim>\<open>strcmp\<close> orders C strings: the bytes as numbers.\<close>

abbreviation strkey :: "string \<Rightarrow> nat list" where
  "strkey s \<equiv> map of_char s"


section \<open>Sample archives\<close>

text \<open>
  Concrete files and handles on which the theorems below are exercised. \<open>demo_grp\<close>
  holds \<^verbatim>\<open>ZEBRA.TXT\<close> (5 bytes) and \<^verbatim>\<open>APPLE\<close> (3 bytes), in this order on disk;
  \<open>demo_mvl\<close> holds \<^verbatim>\<open>intro.mve\<close> and \<^verbatim>\<open>END.MVE\<close>; \<open>mixed_mvl\<close> holds
  \<^verbatim>\<open>B\<close> and \<^verbatim>\<open>a\<close>; \<open>zero_grp\<close> holds two files of length 0; \<open>longext_grp\<close>
  holds one file named \<^verbatim>\<open>DEMO.DATA\<close>.
\<close>

definition demo_grp :: "char list" where
  "demo_grp = ''KenSilverman'' @ [CHR 0x02, CHR 0x00, CHR 0x00, CHR 0x00]
     @ ''ZEBRA.TXT   '' @ [CHR 0x05, CHR 0x00, CHR 0x00, CHR 0x00]
     @ ''APPLE       '' @ [CHR 0x03, CHR 0x00, CHR 0x00, CHR 0x00]
     @ ''helloabc''"

definition empty_grp :: "char list" where
  "empty_grp = ''KenSilverman'' @ [CHR 0x00, CHR 0x00, CHR 0x00, CHR 0x00]"

definition zero_grp :: "char list" where
  "zero_grp = ''KenSilverman'' @ [CHR 0x02, CHR 0x00, CHR 0x00, CHR 0x00]
     @ ''A           '' @ [CHR 0x00, CHR 0x00, CHR 0x00, CHR 0x00]
     @ ''B           '' @ [CHR 0x00, CHR 0x00, CHR 0x00, CHR 0x00]"

definition longext_grp :: "char list" where
  "longext_grp = ''KenSilverman'' @ [CHR 0x01, CHR 0x00, CHR 0x00, CHR 0x00]
     @ ''DEMO.DATA   '' @ [CHR 0x02, CHR 0x00, CHR 0x00, CHR 0x00]
     @ ''ok''"

definition demo_mvl :: "char list" where
  "demo_mvl = ''DMVL'' @ [CHR 0x02, CHR 0x00, CHR 0x00, CHR 0x00]
     @ ''intro.mve'' @ [CHR 0x00, CHR 0x00, CHR 0x00, CHR 0x00]
     @ [CHR 0x04, CHR 0x00, CHR 0x00, CHR 0x00]
     @ ''END.MVE'' @ [CHR 0x00, CHR 0x00, CHR 0x00, CHR 0x00, CHR 0x00, CHR 0x00]
     @ [CHR 0x02, CHR 0x00, CHR 0x00, CHR 0x00]
     @ ''movie!''"

definition mixed_mvl :: "char list" where
  "mixed_mvl = ''DMVL'' @ [CHR 0x02, CHR 0x00, CHR 0x00, CHR 0x00]
     @ ''a'' @ [CHR 0x00, CHR 0x00, CHR 0x00, CHR 0x00, CHR 0x00, CHR 0x00,
                CHR 0x00, CHR 0x00, CHR 0x00, CHR 0x00, CHR 0x00, CHR 0x00]
     @ [CHR 0x01, CHR 0x00, CHR 0x00, CHR 0x00]
     @ ''B'' @ [CHR 0x00, CHR 0x00, CHR 0x00, CHR 0x00, CHR 0x00, CHR 0x00,
                CHR 0x00, CHR 0x00, CHR 0x00, CHR 0x00, CHR 0x00, CHR 0x00]
     @ [CHR 0x01, CHR 0x00, CHR 0x00, CHR 0x00]
     @ ''xy''"

definition empty_mvl :: "char list" where
  "empty_mvl = ''DMVL'' @ [CHR 0x00, CHR 0x00, CHR 0x00, CHR 0x00]"

definition demo_world :: world where
  "demo_world =
     \<lparr>w_files = [''demo.grp'' \<mapsto> demo_grp, ''empty.grp'' \<mapsto> empty_grp,
                 ''zero.grp'' \<mapsto> zero_grp, ''longext.grp'' \<mapsto> longext_grp,
                 ''demo.mvl'' \<mapsto> demo_mvl, ''mixed.mvl'' \<mapsto> mixed_mvl,
                 ''empty.mvl'' \<mapsto> empty_mvl,
                 ''junk.bin'' \<mapsto> ''This is not an archive'',
                 ''cut.grp'' \<mapsto> ''KenSilv'',
                 ''cut.mvl'' \<mapsto> ''DMVL'' @ [CHR 0x01, CHR 0x00]],
      w_open = Map.empty,
      w_next = 0\<rparr>"

text \<open>The info struct as \<^verbatim>\<open>memset\<close> leaves it before the loader runs.\<close>

definition blank_info :: archive_info where
  "blank_info = \<lparr>filename = [], last_mod_time = 0, entryCount = 0, entries = []\<rparr>"

text \<open>
  A handle on \<^verbatim>\<open>ZEBRA.TXT\<close> of \<open>demo_grp\<close> as \<^verbatim>\<open>GRP_openRead\<close> returns it:
  descriptor 0 is open on the archive at offset 48, the cursor is 0. In
  \<open>stale_world\<close> that descriptor is not open.
\<close>

definition zebra :: entry where
  "zebra = \<lparr>name = ''ZEBRA.TXT'', startPos = 48, size' = 5\<rparr>"

definition zebra_world :: world where
  "zebra_world = demo_world\<lparr>w_open := [0 \<mapsto> \<lparr>h_bytes = demo_grp, h_pos = 48\<rparr>], w_next := 1\<rparr>"

definition zebra_file :: fileinfo where
  "zebra_file = \<lparr>handle = 0, entry = zebra, curPos = 0\<rparr>"

definition stale_world :: world where
  "stale_world = demo_world\<lparr>w_next := 1\<rparr>"

text \<open>
  The entries and containers that loading the sample archives yields (lemmas
  \<open>demo_grp_load\<close>, \<open>zero_grp_load\<close>, \<open>longext_grp_load\<close>, \<open>demo_mvl_load\<close> and
  \<open>mixed_mvl_load\<close>), and the platform state a load of \<open>demo_world\<close> ends in.
\<close>

definition apple :: entry where
  "apple = \<lparr>name = ''APPLE'', startPos = 53, size' = 3\<rparr>"

definition demo_grp_info :: archive_info where
  "demo_grp_info = \<lparr>filename = [], last_mod_time = 0, entryCount = 2,
                     entries = [apple, zebra]\<rparr>"

definition intro_mve :: entry where
  "intro_mve = \<lparr>name = ''intro.mve'', startPos = 42, size' = 4\<rparr>"

definition end_mve :: entry where
  "end_mve = \<lparr>name = ''END.MVE'', startPos = 46, size' = 2\<rparr>"

definition demo_mvl_info :: archive_info where
  "demo_mvl_info = \<lparr>filename = [], last_mod_time = 0, entryCount = 2,
                     entries = [end_mve, intro_mve]\<rparr>"

definition entry_a :: entry where
  "entry_a = \<lparr>name = ''a'', startPos = 42, size' = 1\<rparr>"

definition entry_B :: entry where
  "entry_B = \<lparr>name = ''B'', startPos = 43, size' = 1\<rparr>"

definition demo_longext :: entry where
  "demo_longext = \<lparr>name = ''DEMO.DATA'', startPos = 32, size' = 2\<rparr>"

definition longext_info :: archive_info where
  "longext_info = \<lparr>filename = [], last_mod_time = 0, entryCount = 1, entries = [demo_longext]\<rparr>"

definition empty_A :: entry where
  "empty_A = \<lparr>name = ''A'', startPos = 48, size' = 0\<rparr>"

definition empty_B :: entry where
  "empty_B = \<lparr>name = ''B'', startPos = 48, size' = 0\<rparr>"

definition zero_info :: archive_info where
  "zero_info = \<lparr>filename = [], last_mod_time = 0, entryCount = 2, entries = [empty_A, empty_B]\<rparr>"

definition mixed_mvl_info :: archive_info where
  "mixed_mvl_info = \<lparr>filename = [], last_mod_time = 0, entryCount = 2,
                      entries = [entry_B, entry_a]\<rparr>"

definition loaded_world :: world where
  "loaded_world = demo_world\<lparr>w_next := 1\<rparr>"




section \<open>Seeking\<close>

lemmas demo_defs = demo_world_def zebra_world_def zebra_file_def zebra_def stale_world_def
  demo_grp_def

lemma uint_ucast32_64: "uint (ucast (x :: 32 word) :: 64 word) = uint x"
  by (simp add: uint_up_ucast is_up)

lemma unat_ucast32_64: "unat (ucast (x :: 32 word) :: 64 word) = unat x"
  by (simp add: unat_eq_nat_uint uint_ucast32_64 del: nat_uint_eq)

lemma sint_neg_uint: 
  assumes "sint (offset :: 64 word) < 0" shows "2 ^ 63 \<le> uint offset"
proof (rule ccontr)
  assume "\<not> 2 ^ 63 \<le> uint offset"
  then have "uint offset < 2 ^ 63" by simp
  moreover have "- (2 ^ 63) \<le> uint offset"
    by (rule order_trans [of _ 0]) simp_all
  ultimately have "signed_take_bit 63 (uint offset) = uint offset"
    by (intro signed_take_bit_int_eq_self) simp_all
  then have "sint offset = uint offset" by (simp add: sint_uint)
  with assms show False by simp
qed

lemma seek_neg_past: "sint (offset :: 64 word) < 0 \<Longrightarrow> offset \<ge> ucast (x :: 32 word)"
proof -
  assume "sint offset < 0"
  then have "2 ^ 63 \<le> uint offset" by (rule sint_neg_uint)
  moreover have "uint x < 2 ^ 32" using uint_lt2p [of x] by simp
  ultimately show ?thesis by (simp add: word_le_def uint_ucast32_64)
qed

lemma ucast_back:
  assumes "offset < ucast (x::32 word)" 
  shows "uint (ucast (offset :: 64 word) :: 32 word) = uint offset"
proof -
  have "uint x < 2 ^ 32" using uint_lt2p [of x] by simp
  with assms have "uint offset < 2 ^ 32" by (simp add: word_less_def uint_ucast32_64)
  then have "take_bit 32 (uint offset) = uint offset"
    by (intro take_bit_int_eq_self) simp_all
  then show ?thesis by (simp add: unsigned_ucast_eq)
qed

lemma MVL_seek_eq: "MVL_seek = GRP_seek"
  by (intro ext) (simp add: MVL_seek_def GRP_seek_def)

text \<open>
  Claim C5, as amended. \<^verbatim>\<open>seek\<close> never reports \<open>ERR_INVALID_ARGUMENT\<close>: the
  offset is unsigned, and an offset whose signed reading is negative is at least
  \<open>entry.size\<close> and fails with \<open>ERR_PAST_EOF\<close>. Every offset \<open>\<ge> entry.size\<close> fails
  with \<open>ERR_PAST_EOF\<close> and changes nothing (so \<open>seek(entry.size)\<close> fails, and every seek
  on an entry of size 0). A smaller offset is passed to the platform as
  \<open>startPos + offset\<close>; when that succeeds the cursor becomes \<open>offset\<close>, when it
  fails the cursor is unchanged and the failure is returned. \<^verbatim>\<open>MVL_seek\<close> is the same
  function.
\<close>

theorem seek_contract:
  "(sint offset < 0 \<longrightarrow> GRP_seek w f offset = (w, f, Inl ERR_PAST_EOF))
   \<and> (ucast (size' (entry f)) \<le> offset \<longrightarrow> GRP_seek w f offset = (w, f, Inl ERR_PAST_EOF))
   \<and> (offset < ucast (size' (entry f)) \<longrightarrow>
        (case platformSeek w (handle f) (ucast (startPos (entry f)) + offset) of
           (w1, ok) \<Rightarrow>
             if ok then GRP_seek w f offset = (w1, f\<lparr>curPos := ucast offset\<rparr>, Inr ())
                        \<and> uint (ucast offset :: uint32) = uint offset
             else GRP_seek w f offset = (w1, f, Inl ERR_PLATFORM)))
   \<and> snd (snd (GRP_seek w f offset)) \<noteq> Inl ERR_INVALID_ARGUMENT
   \<and> MVL_seek w f offset = GRP_seek w f offset"
proof (intro conjI impI)
  assume "sint offset < 0"
  then have "ucast (size' (entry f)) \<le> offset" by (rule seek_neg_past)
  then show "GRP_seek w f offset = (w, f, Inl ERR_PAST_EOF)" by (simp add: GRP_seek_def)
next
  assume "ucast (size' (entry f)) \<le> offset"
  then show "GRP_seek w f offset = (w, f, Inl ERR_PAST_EOF)" by (simp add: GRP_seek_def)
next
  assume lt: "offset < ucast (size' (entry f))"
  then have "\<not> ucast (size' (entry f)) \<le> offset" by simp
  then show "case platformSeek w (handle f) (ucast (startPos (entry f)) + offset) of
           (w1, ok) \<Rightarrow>
             if ok then GRP_seek w f offset = (w1, f\<lparr>curPos := ucast offset\<rparr>, Inr ())
                        \<and> uint (ucast offset :: uint32) = uint offset
             else GRP_seek w f offset = (w1, f, Inl ERR_PLATFORM)"
    using ucast_back [OF lt] by (simp add: GRP_seek_def split: prod.splits)
next
  show "snd (snd (GRP_seek w f offset)) \<noteq> Inl ERR_INVALID_ARGUMENT"
    by (simp add: GRP_seek_def split: prod.splits)
next
  show "MVL_seek w f offset = GRP_seek w f offset" by (simp add: MVL_seek_eq)
qed

theorem seek_contract_witness:
  "sint (- 1 :: uint64) < 0
   \<and> GRP_seek zebra_world zebra_file (- 1) = (zebra_world, zebra_file, Inl ERR_PAST_EOF)
   \<and> ucast (size' (entry zebra_file)) \<le> (5 :: uint64)
   \<and> GRP_seek zebra_world zebra_file 5 = (zebra_world, zebra_file, Inl ERR_PAST_EOF)
   \<and> (4 :: uint64) < ucast (size' (entry zebra_file))
   \<and> snd (GRP_seek zebra_world zebra_file 4) = (zebra_file\<lparr>curPos := 4\<rparr>, Inr ())
   \<and> h_pos (the (w_open (fst (GRP_seek zebra_world zebra_file 4)) 0)) = 52
   \<and> GRP_seek stale_world zebra_file 4 = (stale_world, zebra_file, Inl ERR_PLATFORM)"
  using seek_contract [where offset = "- 1" and w = zebra_world and f = zebra_file]
    seek_contract [where offset = 5 and w = zebra_world and f = zebra_file]
    seek_contract [where offset = 4 and w = zebra_world and f = zebra_file]
    seek_contract [where offset = 4 and w = stale_world and f = zebra_file]
  by (simp add: demo_defs platformSeek_def)

theorem seek_negative_counterexample:
  "sint (- 1 :: uint64) < 0
   \<and> GRP_seek zebra_world zebra_file (- 1) = (zebra_world, zebra_file, Inl ERR_PAST_EOF)
   \<and> MVL_seek zebra_world zebra_file (- 1) = (zebra_world, zebra_file, Inl ERR_PAST_EOF)
   \<and> Inl ERR_PAST_EOF \<noteq> (Inl ERR_INVALID_ARGUMENT :: error + unit)"
  by (simp add: demo_defs GRP_seek_def MVL_seek_def)

text \<open>
  A successful seek leaves the descriptor at \<open>startPos + cursor\<close> and the cursor inside
  the entry, which is what a read starts from.
\<close>

lemma GRP_seek_handle:
  assumes "GRP_seek w f offset = (w1, f1, Inr ())" and "w_open w (handle f) = Some h"
  shows "w_open w1 (handle f1) = Some (h\<lparr>h_pos := unat (startPos (entry f1)) + unat (curPos f1)\<rparr>)
         \<and> entry f1 = entry f \<and> handle f1 = handle f
         \<and> uint (curPos f1) = uint offset \<and> curPos f1 < size' (entry f1)"
proof -
  from assms(1) have lt: "offset < ucast (size' (entry f))"
    by (auto simp: GRP_seek_def split: if_splits prod.splits)
  note b = ucast_back [OF lt]
  have f1: "f1 = f\<lparr>curPos := ucast offset\<rparr>"
    and w1: "w1 = w\<lparr>w_open := (w_open w)(handle f \<mapsto>
                 h\<lparr>h_pos := unat (ucast (startPos (entry f)) + offset :: uint64)\<rparr>)\<rparr>"
    using assms lt by (auto simp: GRP_seek_def platformSeek_def split: if_splits prod.splits)
  have u: "unat (ucast offset :: uint32) = unat offset"
    using b by (simp add: unat_eq_nat_uint del: nat_uint_eq)
  have "uint offset < 2 ^ 32"
    using lt uint_lt2p [of "size' (entry f)"] by (simp add: word_less_def uint_ucast32_64)
  moreover have "uint (startPos (entry f)) < 2 ^ 32" using uint_lt2p [of "startPos (entry f)"] by simp
  ultimately have "uint (ucast (startPos (entry f)) + offset :: uint64)
      = uint (startPos (entry f)) + uint offset"
    by (simp add: uint_word_ariths uint_ucast32_64 take_bit_int_eq_self)
  then have p: "unat (ucast (startPos (entry f)) + offset :: uint64)
      = unat (startPos (entry f)) + unat offset"
    by (simp add: unat_eq_nat_uint nat_add_distrib del: nat_uint_eq)
  have c: "(ucast offset :: uint32) < size' (entry f)"
    using lt b by (simp add: word_less_def uint_ucast32_64)
  show ?thesis using b c by (simp add: f1 w1 p u)
qed


section \<open>Reading\<close>

lemma MVL_read_eq: "MVL_read = GRP_read"
  by (intro ext) (simp add: MVL_read_def GRP_read_def)

lemma le_div_mult: "n \<le> a div s \<Longrightarrow> n * s \<le> (a::nat)"
  by (rule order_trans [OF mult_le_mono1 div_times_less_eq_dividend])

lemma platformRead_bound:
  assumes "platformRead w fh s c = (w1, rc, buf)"
  shows "rc \<le> int c" and "- 1 \<le> rc" and "length buf = nat rc * s"
proof -
  show "rc \<le> int c" using assms
    by (auto simp: platformRead_def Let_def split: option.splits)
  show "- 1 \<le> rc" using assms
    by (auto simp: platformRead_def Let_def split: option.splits)
  show "length buf = nat rc * s"
  proof (cases "w_open w fh")
    case None
    with assms show ?thesis by (simp add: platformRead_def)
  next
    case (Some h)
    define n where "n = min c ((length (h_bytes h) - h_pos h) div s)"
    have "n * s \<le> length (h_bytes h) - h_pos h"
      unfolding n_def by (rule le_div_mult) simp
    moreover from assms Some have "rc = int n" "buf = take (n * s) (drop (h_pos h) (h_bytes h))"
      by (auto simp: platformRead_def Let_def n_def)
    ultimately show ?thesis by simp
  qed
qed

text \<open>the clamped object count as a natural number\<close>
lemma clamp_unat:
  fixes sz cur objSize objCount :: uint32
  assumes "objSize \<noteq> 0" "cur \<le> sz"
  shows "unat (if (sz - cur) div objSize < objCount then (sz - cur) div objSize else objCount)
         = min (unat objCount) ((unat sz - unat cur) div unat objSize)"
proof -
  have "unat (sz - cur) = unat sz - unat cur" using assms(2) by (simp add: unat_sub)
  then have "unat ((sz - cur) div objSize) = (unat sz - unat cur) div unat objSize"
    by (simp add: unat_div)
  then show ?thesis by (auto simp: word_less_nat_alt min_def)
qed

lemma cursor_advance:
  fixes sz cur objSize :: uint32
  assumes "cur \<le> sz" "n \<le> (unat sz - unat cur) div unat objSize"
  shows "unat (cur + word_of_int (int n * uint objSize)) = unat cur + n * unat objSize"
    and "cur + word_of_int (int n * uint objSize) \<le> sz"
proof -
  define k where "k = n * unat objSize"
  have le: "k \<le> unat sz - unat cur"
    unfolding k_def using assms(2) by (rule le_div_mult)
  have c: "unat cur \<le> unat sz" using assms(1) by (simp add: word_le_nat_alt)
  have lt: "unat sz < 2 ^ 32" using unsigned_less [of sz] by simp
  have "int n * uint objSize = int k" by (simp add: k_def)
  then have w: "word_of_int (int n * uint objSize) = (of_nat k :: uint32)"
    by simp
  have "unat (of_nat k :: uint32) = k"
    using le c lt by (simp add: unat_of_nat)
  then have "unat (cur + of_nat k) = unat cur + k"
    using le c lt by (simp add: unat_word_ariths)
  then show u: "unat (cur + word_of_int (int n * uint objSize)) = unat cur + n * unat objSize"
    unfolding w by (simp add: k_def)
  show "cur + word_of_int (int n * uint objSize) \<le> sz"
    using le c unfolding word_le_nat_alt u k_def by simp
qed


lemma platformRead_full:
  assumes "w_open w fh = Some h" and "n * s \<le> length (h_bytes h) - h_pos h" and "0 < s"
  shows "platformRead w fh s n =
           (w\<lparr>w_open := (w_open w)(fh \<mapsto> h\<lparr>h_pos := h_pos h + n * s\<rparr>)\<rparr>,
            int n, take (n * s) (drop (h_pos h) (h_bytes h)))"
proof -
  have "n \<le> (length (h_bytes h) - h_pos h) div s"
    using assms(2,3) by (simp add: less_eq_div_iff_mult_less_eq)
  then have "min n ((length (h_bytes h) - h_pos h) div s) = n" by simp
  then show ?thesis using assms(1) by (simp add: platformRead_def Let_def)
qed

text \<open>
  The handle \<^verbatim>\<open>GRP_openRead\<close> returns: its descriptor is open on the archive at the
  entry's \<open>startPos\<close>, its cursor is 0.
\<close>

lemma GRP_openRead_handle:
  assumes "GRP_openRead w h fnm m1 m2 = (w', ex, Inr f)"
  shows "\<exists>bs. w_files w (filename h) = Some bs
           \<and> w_open w' (handle f) = Some \<lparr>h_bytes = bs, h_pos = unat (startPos (entry f))\<rparr>
           \<and> snd (grp_find_entry h fnm) = Inr (entry f) \<and> curPos f = 0 \<and> ex"
  using assms
  by (auto simp: GRP_openRead_def platformOpenRead_def platformSeek_def unat_ucast32_64
      split: sum.splits if_splits option.splits prod.splits)

lemma GRP_read_unfold:
  assumes "objSize \<noteq> 0" "curPos f \<le> size' (entry f)"
  shows "GRP_read w f objSize objCount =
    (case platformRead w (handle f) (unat objSize)
            (min (unat objCount) ((unat (size' (entry f)) - unat (curPos f)) div unat objSize)) of
       (w1, rc, buffer) \<Rightarrow>
         Inr (w1,
              if rc > 0 then f\<lparr>curPos := curPos f + word_of_int (rc * uint objSize)\<rparr> else f,
              rc, buffer))"
  using assms(1) clamp_unat [OF assms, of objCount]
  by (simp add: GRP_read_def Let_def)

text \<open>
  Claim C9. For \<open>objSize > 0\<close> and a cursor inside the entry, \<^verbatim>\<open>read\<close> asks the
  platform for \<open>min(objCount, floor((entry.size - cursor) / objSize))\<close> whole objects, so
  it transfers at most that many; the bytes returned and the cursor advance are
  \<open>rc * objSize\<close>, a whole number of objects, and the cursor stays inside the entry.
  When \<open>objSize\<close> exceeds the bytes left, the platform is asked for 0 objects, nothing
  is returned and the handle is unchanged. \<^verbatim>\<open>MVL_read\<close> is the same function.
\<close>

theorem read_object_granular:
  assumes "objSize \<noteq> 0"
    and "curPos f \<le> size' (entry f)"
    and "GRP_read w f objSize objCount = Inr (w1, f1, rc, buf)"
  shows "platformRead w (handle f) (unat objSize)
           (min (unat objCount) ((unat (size' (entry f)) - unat (curPos f)) div unat objSize))
         = (w1, rc, buf)
       \<and> rc \<le> int ((unat (size' (entry f)) - unat (curPos f)) div unat objSize)
       \<and> rc \<le> uint objCount
       \<and> length buf = nat rc * unat objSize
       \<and> unat (curPos f1) = unat (curPos f) + nat rc * unat objSize
       \<and> curPos f1 \<le> size' (entry f1)
       \<and> (unat (size' (entry f)) - unat (curPos f) < unat objSize \<longrightarrow>
            platformRead w (handle f) (unat objSize) 0 = (w1, rc, buf)
            \<and> rc \<le> 0 \<and> buf = [] \<and> f1 = f)
       \<and> MVL_read w f objSize objCount = GRP_read w f objSize objCount"
proof -
  define cnt where
    "cnt = min (unat objCount) ((unat (size' (entry f)) - unat (curPos f)) div unat objSize)"
  obtain w' rc' buf' where pr: "platformRead w (handle f) (unat objSize) cnt = (w', rc', buf')"
    by (cases "platformRead w (handle f) (unat objSize) cnt") auto
  from assms(3) have eqs: "w1 = w'" "rc = rc'" "buf = buf'"
    "f1 = (if rc > 0 then f\<lparr>curPos := curPos f + word_of_int (rc * uint objSize)\<rparr> else f)"
    unfolding GRP_read_unfold [OF assms(1,2)] cnt_def [symmetric] pr by auto
  have req: "platformRead w (handle f) (unat objSize) cnt = (w1, rc, buf)"
    using pr eqs by simp
  note b = platformRead_bound [OF req]
  have rc_cnt: "rc \<le> int cnt" by (rule b(1))
  have rc_left: "rc \<le> int ((unat (size' (entry f)) - unat (curPos f)) div unat objSize)"
    using rc_cnt unfolding cnt_def by simp
  have "cnt \<le> unat objCount" unfolding cnt_def by simp
  then have "int cnt \<le> int (unat objCount)" by (rule of_nat_mono)
  then have rc_count: "rc \<le> uint objCount"
    using rc_cnt by simp
  have nrc: "nat rc \<le> (unat (size' (entry f)) - unat (curPos f)) div unat objSize"
    using rc_left by simp
  have adv: "unat (curPos f1) = unat (curPos f) + nat rc * unat objSize"
  proof (cases "rc > 0")
    case True
    then have "f1 = f\<lparr>curPos := curPos f + word_of_int (int (nat rc) * uint objSize)\<rparr>"
      using eqs(4) by simp
    then show ?thesis using cursor_advance(1) [OF assms(2) nrc] by simp
  next
    case False
    then show ?thesis using eqs(4) by simp
  qed
  have inv: "curPos f1 \<le> size' (entry f1)"
  proof (cases "rc > 0")
    case True
    then have "f1 = f\<lparr>curPos := curPos f + word_of_int (int (nat rc) * uint objSize)\<rparr>"
      using eqs(4) by simp
    then show ?thesis using cursor_advance(2) [OF assms(2) nrc] by simp
  next
    case False
    then show ?thesis using eqs(4) assms(2) by simp
  qed
  have small: "platformRead w (handle f) (unat objSize) 0 = (w1, rc, buf)
            \<and> rc \<le> 0 \<and> buf = [] \<and> f1 = f"
    if "unat (size' (entry f)) - unat (curPos f) < unat objSize"
  proof -
    from that have c0: "cnt = 0" unfolding cnt_def by simp
    then have "rc \<le> 0" using rc_cnt by simp
    moreover then have "buf = []" using b(3) by simp
    moreover have "f1 = f" using eqs(4) \<open>rc \<le> 0\<close> by simp
    ultimately show ?thesis using req c0 by simp
  qed
  have mvl: "MVL_read w f objSize objCount = GRP_read w f objSize objCount"
    by (simp add: MVL_read_eq)
  from req [unfolded cnt_def] rc_left rc_count b(3) adv inv small mvl
  show ?thesis by blast
qed


theorem read_object_granular_witness:
  "(6 :: uint32) \<noteq> 0
   \<and> curPos zebra_file \<le> size' (entry zebra_file)
   \<and> GRP_read zebra_world zebra_file 6 1 = Inr (zebra_world, zebra_file, 0, [])
   \<and> unat (size' (entry zebra_file)) - unat (curPos zebra_file) < unat (6 :: uint32)
   \<and> platformRead zebra_world (handle zebra_file) (unat (6 :: uint32)) 0 = (zebra_world, 0, [])
   \<and> MVL_read zebra_world zebra_file 6 1 = Inr (zebra_world, zebra_file, 0, [])"
proof -
  have h1: "(6 :: uint32) \<noteq> 0" by simp
  have h2: "curPos zebra_file \<le> size' (entry zebra_file)" by (simp add: demo_defs)
  have "zebra_world\<lparr>w_open := [0 \<mapsto> \<lparr>h_bytes = demo_grp, h_pos = 48\<rparr>]\<rparr> = zebra_world"
    by (simp add: demo_defs)
  then have h3: "GRP_read zebra_world zebra_file 6 1 = Inr (zebra_world, zebra_file, 0, [])"
    by (simp add: demo_defs GRP_read_def platformRead_def Let_def)
  have h4: "unat (size' (entry zebra_file)) - unat (curPos zebra_file) < unat (6 :: uint32)"
    by (simp add: demo_defs)
  from read_object_granular [OF h1 h2 h3] h1 h2 h3 h4
  show ?thesis by simp
qed

text \<open>
  Claim C4, as amended. On a handle whose descriptor is open at \<open>startPos + cursor\<close>
  on a file that holds the whole entry, \<^verbatim>\<open>read\<close> succeeds and transfers exactly
  \<open>n = min(objCount, floor((entry.size - cursor) / objSize))\<close> objects: it returns \<open>n\<close>
  and the \<open>n * objSize\<close> bytes at the cursor, and the cursor and the descriptor advance
  by \<open>n * objSize\<close>. For single-byte objects \<open>n = min(objCount, entry.size - cursor)\<close>,
  and a request of at least \<open>entry.size\<close> bytes from cursor 0 returns exactly
  \<open>entry.size\<close> bytes. \<^verbatim>\<open>MVL_read\<close> is the same function.
\<close>

theorem read_clamps_to_entry:
  assumes "objSize \<noteq> 0"
    and "curPos f \<le> size' (entry f)"
    and "w_open w (handle f) = Some h"
    and "h_pos h = unat (startPos (entry f)) + unat (curPos f)"
    and "unat (startPos (entry f)) + unat (size' (entry f)) \<le> length (h_bytes h)"
  shows "(let n = min (unat objCount)
                    ((unat (size' (entry f)) - unat (curPos f)) div unat objSize)
          in GRP_read w f objSize objCount =
               Inr (w\<lparr>w_open := (w_open w)(handle f \<mapsto> h\<lparr>h_pos := h_pos h + n * unat objSize\<rparr>)\<rparr>,
                    f\<lparr>curPos := curPos f + of_nat (n * unat objSize)\<rparr>,
                    int n,
                    take (n * unat objSize) (drop (h_pos h) (h_bytes h)))
             \<and> unat (curPos f + of_nat (n * unat objSize)) = unat (curPos f) + n * unat objSize
             \<and> length (take (n * unat objSize) (drop (h_pos h) (h_bytes h))) = n * unat objSize
             \<and> (objSize = 1 \<longrightarrow> n = min (unat objCount) (unat (size' (entry f)) - unat (curPos f)))
             \<and> (objSize = 1 \<and> curPos f = 0 \<and> size' (entry f) \<le> objCount \<longrightarrow>
                  n = unat (size' (entry f))))
         \<and> MVL_read w f objSize objCount = GRP_read w f objSize objCount"
proof -
  define n where
    "n = min (unat objCount) ((unat (size' (entry f)) - unat (curPos f)) div unat objSize)"
  have pos: "0 < unat objSize" using assms(1) by (simp add: unat_gt_0)
  have nle: "n \<le> (unat (size' (entry f)) - unat (curPos f)) div unat objSize"
    unfolding n_def by simp
  then have bytes: "n * unat objSize \<le> unat (size' (entry f)) - unat (curPos f)"
    by (rule le_div_mult)
  have "unat (size' (entry f)) - unat (curPos f) \<le> length (h_bytes h) - h_pos h"
    using assms(4,5) by simp
  with bytes have avail: "n * unat objSize \<le> length (h_bytes h) - h_pos h" by simp
  note pr = platformRead_full [OF assms(3) avail pos]
  have w: "word_of_int (int n * uint objSize) = (of_nat (n * unat objSize) :: uint32)"
    by simp
  have adv: "unat (curPos f + of_nat (n * unat objSize)) = unat (curPos f) + n * unat objSize"
    using cursor_advance(1) [OF assms(2) nle] unfolding w .
  have f0: "n = 0 \<Longrightarrow> f\<lparr>curPos := curPos f + of_nat (n * unat objSize)\<rparr> = f" by simp
  have rd: "GRP_read w f objSize objCount =
               Inr (w\<lparr>w_open := (w_open w)(handle f \<mapsto> h\<lparr>h_pos := h_pos h + n * unat objSize\<rparr>)\<rparr>,
                    f\<lparr>curPos := curPos f + of_nat (n * unat objSize)\<rparr>,
                    int n,
                    take (n * unat objSize) (drop (h_pos h) (h_bytes h)))"
  proof (cases "n = 0")
    case True
    show ?thesis
      unfolding GRP_read_unfold [OF assms(1,2)] n_def [symmetric] pr using True by simp
  next
    case False
    then have "0 < int n" by simp
    then show ?thesis
      unfolding GRP_read_unfold [OF assms(1,2)] n_def [symmetric] pr w [symmetric] by simp
  qed
  have len: "length (take (n * unat objSize) (drop (h_pos h) (h_bytes h))) = n * unat objSize"
    using avail by simp
  have one: "n = min (unat objCount) (unat (size' (entry f)) - unat (curPos f))" if "objSize = 1"
    using that by (simp add: n_def)
  have whole: "n = unat (size' (entry f))"
    if "objSize = 1 \<and> curPos f = 0 \<and> size' (entry f) \<le> objCount"
    using that by (simp add: n_def word_le_nat_alt)
  have mvl: "MVL_read w f objSize objCount = GRP_read w f objSize objCount"
    by (simp add: MVL_read_eq)
  show ?thesis
    unfolding Let_def n_def [symmetric] using rd adv len one whole mvl by blast
qed

theorem read_clamps_to_entry_witness:
  "(1 :: uint32) \<noteq> 0
   \<and> curPos zebra_file \<le> size' (entry zebra_file)
   \<and> w_open zebra_world (handle zebra_file) = Some \<lparr>h_bytes = demo_grp, h_pos = 48\<rparr>
   \<and> unat (startPos (entry zebra_file)) + unat (size' (entry zebra_file)) \<le> length demo_grp
   \<and> GRP_read zebra_world zebra_file 1 8 =
       Inr (zebra_world\<lparr>w_open := [0 \<mapsto> \<lparr>h_bytes = demo_grp, h_pos = 53\<rparr>]\<rparr>,
            zebra_file\<lparr>curPos := 5\<rparr>, 5, ''hello'')
   \<and> MVL_read zebra_world zebra_file 1 8 =
       Inr (zebra_world\<lparr>w_open := [0 \<mapsto> \<lparr>h_bytes = demo_grp, h_pos = 53\<rparr>]\<rparr>,
            zebra_file\<lparr>curPos := 5\<rparr>, 5, ''hello'')"
proof -
  have h1: "(1 :: uint32) \<noteq> 0" by simp
  have h2: "curPos zebra_file \<le> size' (entry zebra_file)" by (simp add: demo_defs)
  have h3: "w_open zebra_world (handle zebra_file) = Some \<lparr>h_bytes = demo_grp, h_pos = 48\<rparr>"
    by (simp add: demo_defs)
  have h4: "h_pos \<lparr>h_bytes = demo_grp, h_pos = 48\<rparr>
            = unat (startPos (entry zebra_file)) + unat (curPos zebra_file)"
    by (simp add: demo_defs)
  have h5: "unat (startPos (entry zebra_file)) + unat (size' (entry zebra_file))
            \<le> length (h_bytes \<lparr>h_bytes = demo_grp, h_pos = 48\<rparr>)"
    by (simp add: demo_defs)
  from read_clamps_to_entry [OF h1 h2 h3 h4 h5, of 8] h1 h2 h3 h5
  show ?thesis by (simp add: demo_defs Let_def)
qed

theorem read_clamp_counterexample:
  "GRP_read zebra_world zebra_file 2 3 =
     Inr (zebra_world\<lparr>w_open := [0 \<mapsto> \<lparr>h_bytes = demo_grp, h_pos = 52\<rparr>]\<rparr>,
          zebra_file\<lparr>curPos := 4\<rparr>, 2, ''hell'')
   \<and> int (length ''hell'')
       \<noteq> min (uint (2 :: uint32) * uint (3 :: uint32))
             (uint (size' (entry zebra_file) - curPos zebra_file))
   \<and> (2 :: int) \<noteq> min (uint (3 :: uint32)) (uint (size' (entry zebra_file) - curPos zebra_file))"
  by (simp add: demo_defs GRP_read_def platformRead_def Let_def)


section \<open>Opening and probing\<close>

lemma platformRead_one:
  assumes "w_open w fh = Some h" and "0 < s"
  shows "platformRead w fh s (Suc 0) =
           (if h_pos h + s \<le> length (h_bytes h)
            then (w\<lparr>w_open := (w_open w)(fh \<mapsto> h\<lparr>h_pos := h_pos h + s\<rparr>)\<rparr>,
                  1, take s (drop (h_pos h) (h_bytes h)))
            else (w, 0, []))"
proof (cases "h_pos h + s \<le> length (h_bytes h)")
  case True
  then have "s \<le> length (h_bytes h) - h_pos h" by simp
  then have "1 \<le> (length (h_bytes h) - h_pos h) div s"
    using assms(2) by (simp add: less_eq_div_iff_mult_less_eq)
  then have "min (Suc 0) ((length (h_bytes h) - h_pos h) div s) = 1" by simp
  then show ?thesis using assms(1) True by (simp add: platformRead_def Let_def)
next
  case False
  then have "(length (h_bytes h) - h_pos h) div s = 0" using assms(2) by simp
  moreover have "w\<lparr>w_open := (w_open w)(fh \<mapsto> h)\<rparr> = w"
    using assms(1) by (simp add: map_upd_triv)
  ultimately show ?thesis using assms(1) False by (simp add: platformRead_def Let_def)
qed

lemma grp_open_read:
  assumes "w_files w fname = Some bs"
  shows "grp_open w fname False =
    (if length bs < 12 then (w\<lparr>w_open := (w_open w)(w_next w := None), w_next := Suc (w_next w)\<rparr>, Inl ERR_PLATFORM)
     else if take 12 bs \<noteq> ''KenSilverman''
       then (w\<lparr>w_open := (w_open w)(w_next w := None), w_next := Suc (w_next w)\<rparr>, Inl ERR_UNSUPPORTED_ARCHIVE)
     else if length bs < 16
       then (w\<lparr>w_open := (w_open w)(w_next w := None), w_next := Suc (w_next w)\<rparr>, Inl ERR_PLATFORM)
     else (w\<lparr>w_open := (w_open w)(w_next w \<mapsto> \<lparr>h_bytes = bs, h_pos = 16\<rparr>), w_next := Suc (w_next w)\<rparr>,
           Inr (w_next w, swapULE32 (take 4 (drop 12 bs)))))"
  using assms
  by (simp add: grp_open_def platformOpenRead_def platformRead_one platformClose_def)


lemma mvl_open_read:
  assumes "w_files w fname = Some bs"
  shows "mvl_open w fname False =
    (if length bs < 4 then (w\<lparr>w_open := (w_open w)(w_next w := None), w_next := Suc (w_next w)\<rparr>, Inl ERR_PLATFORM)
     else if take 4 bs \<noteq> ''DMVL''
       then (w\<lparr>w_open := (w_open w)(w_next w := None), w_next := Suc (w_next w)\<rparr>, Inl ERR_UNSUPPORTED_ARCHIVE)
     else if length bs < 8
       then (w\<lparr>w_open := (w_open w)(w_next w := None), w_next := Suc (w_next w)\<rparr>, Inl ERR_PLATFORM)
     else (w\<lparr>w_open := (w_open w)(w_next w \<mapsto> \<lparr>h_bytes = bs, h_pos = 8\<rparr>), w_next := Suc (w_next w)\<rparr>,
           Inr (w_next w, swapULE32 (take 4 (drop 4 bs)))))"
  using assms
  by (simp add: mvl_open_def platformOpenRead_def platformRead_one platformClose_def)

text \<open>
  Claim C7. For a file that exists: when it has at least 12 (GRP) or 4 (MVL) bytes and
  they differ from the signature, \<^verbatim>\<open>open\<close> and the probe fail with
  \<open>ERR_UNSUPPORTED_ARCHIVE\<close>; when the signature or the 4-byte count that follows
  is cut short, they fail as well. In both cases the handle that was opened, \<open>w_next w\<close>,
  is no longer open on return and nothing else has changed. On success the returned handle
  stands right after the count field, at offset 16 (GRP) or 8 (MVL), and the count is the
  little-endian value of the four bytes there.
\<close>

theorem open_rejects_bad_signature:
  assumes "w_files w fname = Some bs"
  shows
    "(12 \<le> length bs \<and> take 12 bs \<noteq> ''KenSilverman'' \<longrightarrow>
        grp_open w fname False =
          (w\<lparr>w_open := (w_open w)(w_next w := None), w_next := Suc (w_next w)\<rparr>,
           Inl ERR_UNSUPPORTED_ARCHIVE)
        \<and> GRP_isArchive w fname False =
          (w\<lparr>w_open := (w_open w)(w_next w := None), w_next := Suc (w_next w)\<rparr>,
           Inl ERR_UNSUPPORTED_ARCHIVE))
     \<and> (length bs < 12 \<or> take 12 bs = ''KenSilverman'' \<and> length bs < 16 \<longrightarrow>
        grp_open w fname False =
          (w\<lparr>w_open := (w_open w)(w_next w := None), w_next := Suc (w_next w)\<rparr>,
           Inl ERR_PLATFORM)
        \<and> GRP_isArchive w fname False =
          (w\<lparr>w_open := (w_open w)(w_next w := None), w_next := Suc (w_next w)\<rparr>,
           Inl ERR_PLATFORM))
     \<and> (16 \<le> length bs \<and> take 12 bs = ''KenSilverman'' \<longrightarrow>
        grp_open w fname False =
          (w\<lparr>w_open := (w_open w)(w_next w \<mapsto> \<lparr>h_bytes = bs, h_pos = 16\<rparr>),
              w_next := Suc (w_next w)\<rparr>,
           Inr (w_next w, swapULE32 (take 4 (drop 12 bs)))))
     \<and> (4 \<le> length bs \<and> take 4 bs \<noteq> ''DMVL'' \<longrightarrow>
        mvl_open w fname False =
          (w\<lparr>w_open := (w_open w)(w_next w := None), w_next := Suc (w_next w)\<rparr>,
           Inl ERR_UNSUPPORTED_ARCHIVE)
        \<and> MVL_isArchive w fname False =
          (w\<lparr>w_open := (w_open w)(w_next w := None), w_next := Suc (w_next w)\<rparr>,
           Inl ERR_UNSUPPORTED_ARCHIVE))
     \<and> (length bs < 4 \<or> take 4 bs = ''DMVL'' \<and> length bs < 8 \<longrightarrow>
        mvl_open w fname False =
          (w\<lparr>w_open := (w_open w)(w_next w := None), w_next := Suc (w_next w)\<rparr>,
           Inl ERR_PLATFORM)
        \<and> MVL_isArchive w fname False =
          (w\<lparr>w_open := (w_open w)(w_next w := None), w_next := Suc (w_next w)\<rparr>,
           Inl ERR_PLATFORM))
     \<and> (8 \<le> length bs \<and> take 4 bs = ''DMVL'' \<longrightarrow>
        mvl_open w fname False =
          (w\<lparr>w_open := (w_open w)(w_next w \<mapsto> \<lparr>h_bytes = bs, h_pos = 8\<rparr>),
              w_next := Suc (w_next w)\<rparr>,
           Inr (w_next w, swapULE32 (take 4 (drop 4 bs)))))"
proof -
  note g = grp_open_read [OF assms]
  note m = mvl_open_read [OF assms]
  have g1: "12 \<le> length bs \<and> take 12 bs \<noteq> ''KenSilverman'' \<longrightarrow>
        grp_open w fname False =
          (w\<lparr>w_open := (w_open w)(w_next w := None), w_next := Suc (w_next w)\<rparr>,
           Inl ERR_UNSUPPORTED_ARCHIVE)
        \<and> GRP_isArchive w fname False =
          (w\<lparr>w_open := (w_open w)(w_next w := None), w_next := Suc (w_next w)\<rparr>,
           Inl ERR_UNSUPPORTED_ARCHIVE)"
    by (simp add: g GRP_isArchive_def)
  have g2: "length bs < 12 \<or> take 12 bs = ''KenSilverman'' \<and> length bs < 16 \<longrightarrow>
        grp_open w fname False =
          (w\<lparr>w_open := (w_open w)(w_next w := None), w_next := Suc (w_next w)\<rparr>,
           Inl ERR_PLATFORM)
        \<and> GRP_isArchive w fname False =
          (w\<lparr>w_open := (w_open w)(w_next w := None), w_next := Suc (w_next w)\<rparr>,
           Inl ERR_PLATFORM)"
    by (auto simp add: g GRP_isArchive_def)
  have g3: "16 \<le> length bs \<and> take 12 bs = ''KenSilverman'' \<longrightarrow>
        grp_open w fname False =
          (w\<lparr>w_open := (w_open w)(w_next w \<mapsto> \<lparr>h_bytes = bs, h_pos = 16\<rparr>),
              w_next := Suc (w_next w)\<rparr>,
           Inr (w_next w, swapULE32 (take 4 (drop 12 bs))))"
    by (simp add: g)
  have m1: "4 \<le> length bs \<and> take 4 bs \<noteq> ''DMVL'' \<longrightarrow>
        mvl_open w fname False =
          (w\<lparr>w_open := (w_open w)(w_next w := None), w_next := Suc (w_next w)\<rparr>,
           Inl ERR_UNSUPPORTED_ARCHIVE)
        \<and> MVL_isArchive w fname False =
          (w\<lparr>w_open := (w_open w)(w_next w := None), w_next := Suc (w_next w)\<rparr>,
           Inl ERR_UNSUPPORTED_ARCHIVE)"
    by (simp add: m MVL_isArchive_def)
  have m2: "length bs < 4 \<or> take 4 bs = ''DMVL'' \<and> length bs < 8 \<longrightarrow>
        mvl_open w fname False =
          (w\<lparr>w_open := (w_open w)(w_next w := None), w_next := Suc (w_next w)\<rparr>,
           Inl ERR_PLATFORM)
        \<and> MVL_isArchive w fname False =
          (w\<lparr>w_open := (w_open w)(w_next w := None), w_next := Suc (w_next w)\<rparr>,
           Inl ERR_PLATFORM)"
    by (auto simp add: m MVL_isArchive_def)
  have m3: "8 \<le> length bs \<and> take 4 bs = ''DMVL'' \<longrightarrow>
        mvl_open w fname False =
          (w\<lparr>w_open := (w_open w)(w_next w \<mapsto> \<lparr>h_bytes = bs, h_pos = 8\<rparr>),
              w_next := Suc (w_next w)\<rparr>,
           Inr (w_next w, swapULE32 (take 4 (drop 4 bs))))"
    by (simp add: m)
  from g1 g2 g3 m1 m2 m3 show ?thesis by (intro conjI)
qed

theorem open_rejects_bad_signature_witness:
  "w_files demo_world ''junk.bin'' = Some ''This is not an archive''
   \<and> 12 \<le> length ''This is not an archive''
   \<and> take 12 ''This is not an archive'' \<noteq> ''KenSilverman''
   \<and> take 4 ''This is not an archive'' \<noteq> ''DMVL''
   \<and> grp_open demo_world ''junk.bin'' False = (demo_world\<lparr>w_next := 1\<rparr>, Inl ERR_UNSUPPORTED_ARCHIVE)
   \<and> GRP_isArchive demo_world ''junk.bin'' False = (demo_world\<lparr>w_next := 1\<rparr>, Inl ERR_UNSUPPORTED_ARCHIVE)
   \<and> mvl_open demo_world ''junk.bin'' False = (demo_world\<lparr>w_next := 1\<rparr>, Inl ERR_UNSUPPORTED_ARCHIVE)
   \<and> MVL_isArchive demo_world ''junk.bin'' False = (demo_world\<lparr>w_next := 1\<rparr>, Inl ERR_UNSUPPORTED_ARCHIVE)
   \<and> w_files demo_world ''cut.grp'' = Some ''KenSilv''
   \<and> grp_open demo_world ''cut.grp'' False = (demo_world\<lparr>w_next := 1\<rparr>, Inl ERR_PLATFORM)
   \<and> w_files demo_world ''cut.mvl'' = Some (''DMVL'' @ [CHR 0x01, CHR 0x00])
   \<and> mvl_open demo_world ''cut.mvl'' False = (demo_world\<lparr>w_next := 1\<rparr>, Inl ERR_PLATFORM)
   \<and> w_files demo_world ''demo.grp'' = Some demo_grp
   \<and> grp_open demo_world ''demo.grp'' False =
       (demo_world\<lparr>w_open := [0 \<mapsto> \<lparr>h_bytes = demo_grp, h_pos = 16\<rparr>], w_next := 1\<rparr>, Inr (0, 2))
   \<and> w_files demo_world ''demo.mvl'' = Some demo_mvl
   \<and> mvl_open demo_world ''demo.mvl'' False =
       (demo_world\<lparr>w_open := [0 \<mapsto> \<lparr>h_bytes = demo_mvl, h_pos = 8\<rparr>], w_next := 1\<rparr>, Inr (0, 2))"
proof -
  have j: "w_files demo_world ''junk.bin'' = Some ''This is not an archive''"
    by (simp add: demo_world_def)
  have cg: "w_files demo_world ''cut.grp'' = Some ''KenSilv''"
    by (simp add: demo_world_def)
  have cm: "w_files demo_world ''cut.mvl'' = Some (''DMVL'' @ [CHR 0x01, CHR 0x00])"
    by (simp add: demo_world_def)
  have dg: "w_files demo_world ''demo.grp'' = Some demo_grp"
    by (simp add: demo_world_def)
  have dm: "w_files demo_world ''demo.mvl'' = Some demo_mvl"
    by (simp add: demo_world_def)
  have e: "(w_open demo_world)(0 := None) = w_open demo_world"
    by (simp add: demo_world_def)
  have n: "w_next demo_world = 0" by (simp add: demo_world_def)
  have o: "w_open demo_world = Map.empty" by (simp add: demo_world_def)
  from open_rejects_bad_signature [OF j] open_rejects_bad_signature [OF cg]
    open_rejects_bad_signature [OF cm] open_rejects_bad_signature [OF dg]
    open_rejects_bad_signature [OF dm] j cg cm dg dm
  show ?thesis
    by (simp add: e n o demo_grp_def demo_mvl_def swapULE32_def)
qed


section \<open>The write family\<close>

text \<open>
  Claim C6. \<^verbatim>\<open>openWrite\<close>, \<^verbatim>\<open>openAppend\<close>, \<^verbatim>\<open>remove\<close>, \<^verbatim>\<open>mkdir\<close> and
  \<^verbatim>\<open>write\<close> of both drivers fail with \<open>ERR_NOT_SUPPORTED\<close> on every argument and hand
  back the platform state, the container and the handle unchanged. Opening, probing and
  loading with \<open>forWriting\<close> set fail with \<open>ERR_ARC_IS_READ_ONLY\<close> and leave the
  platform state as it was: no file is opened.
\<close>

theorem write_family_rejected:
  "GRP_openWrite w h nm = (w, h, Inl ERR_NOT_SUPPORTED)
   \<and> GRP_openAppend w h nm = (w, h, Inl ERR_NOT_SUPPORTED)
   \<and> GRP_remove w h nm = (w, h, Inl ERR_NOT_SUPPORTED)
   \<and> GRP_mkdir w h nm = (w, h, Inl ERR_NOT_SUPPORTED)
   \<and> GRP_write w f buffer objSize objCount = (w, f, Inl ERR_NOT_SUPPORTED)
   \<and> MVL_openWrite w h nm = (w, h, Inl ERR_NOT_SUPPORTED)
   \<and> MVL_openAppend w h nm = (w, h, Inl ERR_NOT_SUPPORTED)
   \<and> MVL_remove w h nm = (w, h, Inl ERR_NOT_SUPPORTED)
   \<and> MVL_mkdir w h nm = (w, h, Inl ERR_NOT_SUPPORTED)
   \<and> MVL_write w f buffer objSize objCount = (w, f, Inl ERR_NOT_SUPPORTED)
   \<and> grp_open w fname True = (w, Inl ERR_ARC_IS_READ_ONLY)
   \<and> GRP_isArchive w fname True = (w, Inl ERR_ARC_IS_READ_ONLY)
   \<and> grp_load_entries w fname True malloc_ok info = (w, Inl ERR_ARC_IS_READ_ONLY)
   \<and> mvl_open w fname True = (w, Inl ERR_ARC_IS_READ_ONLY)
   \<and> MVL_isArchive w fname True = (w, Inl ERR_ARC_IS_READ_ONLY)
   \<and> mvl_load_entries w fname True malloc_ok info = (w, Inl ERR_ARC_IS_READ_ONLY)"
  by (simp add: GRP_openWrite_def GRP_openAppend_def GRP_remove_def GRP_mkdir_def GRP_write_def
      MVL_openWrite_def MVL_openAppend_def MVL_remove_def MVL_mkdir_def MVL_write_def
      grp_open_def GRP_isArchive_def grp_load_entries_def
      mvl_open_def MVL_isArchive_def mvl_load_entries_def)

theorem write_family_rejected_witness:
  "GRP_openWrite demo_world blank_info ''ZEBRA.TXT'' = (demo_world, blank_info, Inl ERR_NOT_SUPPORTED)
   \<and> GRP_write zebra_world zebra_file ''data'' 1 4 = (zebra_world, zebra_file, Inl ERR_NOT_SUPPORTED)
   \<and> grp_open demo_world ''demo.grp'' True = (demo_world, Inl ERR_ARC_IS_READ_ONLY)
   \<and> MVL_isArchive demo_world ''demo.mvl'' True = (demo_world, Inl ERR_ARC_IS_READ_ONLY)"
  using write_family_rejected [of demo_world blank_info "''ZEBRA.TXT''" zebra_file "''data''" 1 4 "''demo.grp''" True]
    write_family_rejected [of zebra_world blank_info "''ZEBRA.TXT''" zebra_file "''data''" 1 4 "''demo.mvl''" True]
    write_family_rejected [of demo_world blank_info "''ZEBRA.TXT''" zebra_file "''data''" 1 4 "''demo.mvl''" True]
  by simp


section \<open>Name checks before the search\<close>

declare find_loop.simps [simp del]

lemma find_loop_empty:
  "hi < lo \<Longrightarrow> find_loop cmp a nm lo hi = ([], Inl ERR_NO_SUCH_FILE)"
  by (subst find_loop.simps) simp

lemma length_dropWhile_ge:
  "\<not> P x \<Longrightarrow> Suc (length suf) \<le> length (dropWhile P (pre @ x # suf))"
  by (induction pre) auto

lemma strchr_long_iff:
  "(case strchr nm c of Some p \<Rightarrow> 4 < length p | None \<Rightarrow> False)
   \<longleftrightarrow> (\<exists>pre suf. nm = pre @ c # suf \<and> 3 < length suf)"
proof
  assume l: "case strchr nm c of Some p \<Rightarrow> 4 < length p | None \<Rightarrow> False"
  then have c: "c \<in> set nm" by (auto simp: strchr_def split: if_splits)
  with l have len: "4 < length (dropWhile (\<lambda>x. x \<noteq> c) nm)" by (simp add: strchr_def)
  from c have "dropWhile (\<lambda>x. x \<noteq> c) nm \<noteq> []" by simp
  then obtain y suf where d: "dropWhile (\<lambda>x. x \<noteq> c) nm = y # suf"
    by (cases "dropWhile (\<lambda>x. x \<noteq> c) nm") auto
  then have "y = c" using hd_dropWhile [of "\<lambda>x. x \<noteq> c" nm] by auto
  with d have "nm = takeWhile (\<lambda>x. x \<noteq> c) nm @ c # suf"
    using takeWhile_dropWhile_id [of "\<lambda>x. x \<noteq> c" nm] by simp
  moreover from len d have "3 < length suf" by simp
  ultimately show "\<exists>pre suf. nm = pre @ c # suf \<and> 3 < length suf" by blast
next
  assume "\<exists>pre suf. nm = pre @ c # suf \<and> 3 < length suf"
  then obtain pre suf where nm: "nm = pre @ c # suf" and s: "3 < length suf" by blast
  have "Suc (length suf) \<le> length (dropWhile (\<lambda>x. x \<noteq> c) nm)"
    unfolding nm by (rule length_dropWhile_ge) simp
  with s have "4 < length (dropWhile (\<lambda>x. x \<noteq> c) nm)" by simp
  moreover have "c \<in> set nm" by (simp add: nm)
  ultimately show "case strchr nm c of Some p \<Rightarrow> 4 < length p | None \<Rightarrow> False"
    by (simp add: strchr_def)
qed

lemma strchr_None_iff: "strchr nm c \<noteq> None \<longleftrightarrow> c \<in> set nm"
  by (simp add: strchr_def)

lemma grp_find_entry_cases:
  "grp_find_entry info nm =
     (if (\<exists>pre suf. nm = pre @ CHR ''.'' # suf \<and> 3 < length suf) \<or> 12 < length nm
         \<or> CHR ''/'' \<in> set nm
      then ([], Inl ERR_NO_SUCH_FILE)
      else find_loop strcmp (entries info) nm 0 (sint (entryCount info - 1)))"
  unfolding grp_find_entry_def Let_def strchr_long_iff strchr_None_iff by auto

lemma mvl_find_entry_cases:
  "mvl_find_entry info nm =
     (if (\<exists>pre suf. nm = pre @ CHR ''.'' # suf \<and> 3 < length suf) \<or> 12 < length nm
         \<or> CHR ''/'' \<in> set nm
      then ([], Inl ERR_NO_SUCH_FILE)
      else find_loop platformStricmp (entries info) nm 0 (sint (entryCount info - 1)))"
  unfolding mvl_find_entry_def Let_def strchr_long_iff strchr_None_iff by auto

text \<open>
  Claim C8. A name longer than 12 characters, a name that contains \<^verbatim>\<open>/\<close>, and a name in
  which some \<^verbatim>\<open>.\<close> is followed by more than 3 characters are each rejected with
  \<open>ERR_NO_SUCH_FILE\<close> by lookup, \<^verbatim>\<open>exists\<close> and \<^verbatim>\<open>openRead\<close> of both drivers,
  for every container, and the entry array is not read (the list of probed indices is
  empty; \<^verbatim>\<open>openRead\<close> leaves the platform state alone). Every other name goes to the
  binary search over \<open>0 .. entryCount - 1\<close>.
\<close>

theorem find_entry_prechecks:
  "(12 < length nm \<or> CHR ''/'' \<in> set nm
      \<or> (\<exists>pre suf. nm = pre @ CHR ''.'' # suf \<and> 3 < length suf) \<longrightarrow>
      grp_find_entry info nm = ([], Inl ERR_NO_SUCH_FILE)
      \<and> mvl_find_entry info nm = ([], Inl ERR_NO_SUCH_FILE)
      \<and> \<not> GRP_exists info nm \<and> \<not> MVL_exists info nm
      \<and> GRP_openRead w info nm m1 m2 = (w, False, Inl ERR_NO_SUCH_FILE)
      \<and> MVL_openRead w info nm m1 m2 = (w, False, Inl ERR_NO_SUCH_FILE))
   \<and> (\<not> (12 < length nm \<or> CHR ''/'' \<in> set nm
          \<or> (\<exists>pre suf. nm = pre @ CHR ''.'' # suf \<and> 3 < length suf)) \<longrightarrow>
      grp_find_entry info nm = find_loop strcmp (entries info) nm 0 (sint (entryCount info - 1))
      \<and> mvl_find_entry info nm
          = find_loop platformStricmp (entries info) nm 0 (sint (entryCount info - 1)))"
proof (intro conjI impI)
  assume r: "12 < length nm \<or> CHR ''/'' \<in> set nm
      \<or> (\<exists>pre suf. nm = pre @ CHR ''.'' # suf \<and> 3 < length suf)"
  then have g: "grp_find_entry info nm = ([], Inl ERR_NO_SUCH_FILE)"
    unfolding grp_find_entry_cases by auto
  from r have m: "mvl_find_entry info nm = ([], Inl ERR_NO_SUCH_FILE)"
    unfolding mvl_find_entry_cases by auto
  show "grp_find_entry info nm = ([], Inl ERR_NO_SUCH_FILE)" by (rule g)
  show "mvl_find_entry info nm = ([], Inl ERR_NO_SUCH_FILE)" by (rule m)
  show "\<not> GRP_exists info nm" by (simp add: GRP_exists_def g)
  show "\<not> MVL_exists info nm" by (simp add: MVL_exists_def m)
  show "GRP_openRead w info nm m1 m2 = (w, False, Inl ERR_NO_SUCH_FILE)"
    by (simp add: GRP_openRead_def g)
  show "MVL_openRead w info nm m1 m2 = (w, False, Inl ERR_NO_SUCH_FILE)"
    by (simp add: MVL_openRead_def m)
next
  assume r: "\<not> (12 < length nm \<or> CHR ''/'' \<in> set nm
      \<or> (\<exists>pre suf. nm = pre @ CHR ''.'' # suf \<and> 3 < length suf))"
  then show "grp_find_entry info nm
      = find_loop strcmp (entries info) nm 0 (sint (entryCount info - 1))"
    unfolding grp_find_entry_cases by auto
  from r show "mvl_find_entry info nm
      = find_loop platformStricmp (entries info) nm 0 (sint (entryCount info - 1))"
    unfolding mvl_find_entry_cases by auto
qed

text \<open>
  Claim C10. With \<open>entryCount = 0\<close> the upper bound \<open>(PHYSFS_sint32) (entryCount - 1)\<close>
  is \<open>-1\<close>, below \<open>lo = 0\<close>: the loop body never runs, no index of the array is read,
  and lookup, \<^verbatim>\<open>exists\<close> and \<^verbatim>\<open>openRead\<close> of both drivers fail with
  \<open>ERR_NO_SUCH_FILE\<close> for every name.
\<close>

theorem empty_archive_lookup:
  assumes "entryCount info = 0"
  shows "sint (entryCount info - 1) = - 1
     \<and> grp_find_entry info nm = ([], Inl ERR_NO_SUCH_FILE)
     \<and> mvl_find_entry info nm = ([], Inl ERR_NO_SUCH_FILE)
     \<and> \<not> GRP_exists info nm \<and> \<not> MVL_exists info nm
     \<and> GRP_openRead w info nm m1 m2 = (w, False, Inl ERR_NO_SUCH_FILE)
     \<and> MVL_openRead w info nm m1 m2 = (w, False, Inl ERR_NO_SUCH_FILE)"
proof -
  have hi: "sint (entryCount info - 1) = - 1" using assms by simp
  have g: "grp_find_entry info nm = ([], Inl ERR_NO_SUCH_FILE)"
    unfolding grp_find_entry_cases hi by (simp add: find_loop_empty)
  have m: "mvl_find_entry info nm = ([], Inl ERR_NO_SUCH_FILE)"
    unfolding mvl_find_entry_cases hi by (simp add: find_loop_empty)
  show ?thesis
    using hi g m
    by (simp add: GRP_exists_def MVL_exists_def GRP_openRead_def MVL_openRead_def)
qed


section \<open>Ordering of names and the sort\<close>

lemma of_char_diff_sign:
  "x \<noteq> y \<Longrightarrow> (int (of_char x) - int (of_char y) < 0) = ((of_char x :: nat) < of_char y)"
  by simp

lemma strcmp_less_iff: "strcmp a b < 0 \<longleftrightarrow> (map of_char a :: nat list) < map of_char b"
  by (induction a b rule: strcmp.induct) auto

lemma strcmp_eq_iff: "strcmp a b = 0 \<longleftrightarrow> a = b"
  by (induction a b rule: strcmp.induct) auto

lemma strcmp_key_eq_iff: "strcmp a b = 0 \<longleftrightarrow> (map of_char a :: nat list) = map of_char b"
  by (induction a b rule: strcmp.induct) auto

lemma strcmp_le_iff: "strcmp a b \<le> 0 \<longleftrightarrow> (map of_char a :: nat list) \<le> map of_char b"
  using strcmp_less_iff [of a b] strcmp_key_eq_iff [of a b] by (auto simp: order_le_less)

lemma strcmp_gt_iff: "0 < strcmp a b \<longleftrightarrow> (map of_char b :: nat list) < map of_char a"
  using strcmp_le_iff [of a b] by auto

lemma stricmp_less_iff:
  "platformStricmp a b < 0 \<longleftrightarrow> (map of_char (map tolower a) :: nat list) < map of_char (map tolower b)"
  by (simp add: platformStricmp_def strcmp_less_iff)

lemma stricmp_eq_iff:
  "platformStricmp a b = 0 \<longleftrightarrow> (map of_char (map tolower a) :: nat list) = map of_char (map tolower b)"
  by (simp only: platformStricmp_def strcmp_key_eq_iff)


lemma grp_cmp_adjacent:
  "grp_entry_cmp (P @ p # x # R) (length P) (Suc (length P)) = strcmp (name p) (name x)"
  by (simp add: grp_entry_cmp_def nth_append)

lemma grp_swap_adjacent:
  "grp_entry_swap (P @ p # x # R) (length P) (Suc (length P)) = P @ x # p # R"
  by (simp add: grp_entry_swap_def nth_append list_update_append)

lemma sort_sift_grp:
  assumes "sorted (map (\<lambda>e. strkey (name e)) (P @ S))"
    and "\<forall>s\<in>set S. strkey (name x) \<le> strkey (name s)"
  shows "\<exists>Q. sort_sift grp_entry_cmp grp_entry_swap (P @ x # S @ R) (length P) = Q @ R
             \<and> sorted (map (\<lambda>e. strkey (name e)) Q) \<and> mset Q = mset (P @ x # S)"
  using assms
proof (induction P arbitrary: S rule: rev_induct)
  case Nil
  then show ?case by (intro exI [of _ "x # S"]) simp
next
  case (snoc p P)
  have len: "length (P @ [p]) = Suc (length P)" by simp
  have list: "(P @ [p]) @ x # S @ R = P @ p # x # (S @ R)" by simp
  show ?case
  proof (cases "0 < strcmp (name p) (name x)")
    case True
    then have xp: "strkey (name x) \<le> strkey (name p)" by (simp add: strcmp_gt_iff)
    have s1: "sorted (map (\<lambda>e. strkey (name e)) (P @ (p # S)))" using snoc.prems(1) by simp
    have s2: "\<forall>s\<in>set (p # S). strkey (name x) \<le> strkey (name s)"
      using xp snoc.prems(2) by simp
    from snoc.IH [OF s1 s2] obtain Q where
      Q: "sort_sift grp_entry_cmp grp_entry_swap (P @ x # (p # S) @ R) (length P) = Q @ R"
         "sorted (map (\<lambda>e. strkey (name e)) Q)" "mset Q = mset (P @ x # p # S)"
      by auto
    have "sort_sift grp_entry_cmp grp_entry_swap ((P @ [p]) @ x # S @ R) (length (P @ [p])) = Q @ R"
      unfolding len list using True Q(1)
      by (simp add: grp_cmp_adjacent grp_swap_adjacent)
    moreover have "mset Q = mset ((P @ [p]) @ x # S)" using Q(3) by simp
    ultimately show ?thesis using Q(2) by blast
  next
    case False
    then have px: "strkey (name p) \<le> strkey (name x)" by (simp add: strcmp_gt_iff not_less)
    have r: "sort_sift grp_entry_cmp grp_entry_swap ((P @ [p]) @ x # S @ R) (length (P @ [p]))
             = ((P @ [p]) @ x # S) @ R"
      unfolding len list using False by (simp add: grp_cmp_adjacent)
    have "\<forall>q\<in>set P. strkey (name q) \<le> strkey (name p)"
      using snoc.prems(1) by (auto simp: sorted_append)
    with px have "\<forall>q\<in>set (P @ [p]). strkey (name q) \<le> strkey (name x)" by auto
    with snoc.prems have "sorted (map (\<lambda>e. strkey (name e)) ((P @ [p]) @ x # S))"
      by (auto simp: sorted_append)
    with r show ?thesis by blast
  qed
qed

lemma sort_from_grp:
  assumes "sorted (map (\<lambda>e. strkey (name e)) A)"
  shows "sorted (map (\<lambda>e. strkey (name e))
           (sort_from grp_entry_cmp grp_entry_swap (A @ B) (length A) (length B)))
       \<and> mset (sort_from grp_entry_cmp grp_entry_swap (A @ B) (length A) (length B))
           = mset (A @ B)"
  using assms
proof (induction B arbitrary: A)
  case Nil
  then show ?case by simp
next
  case (Cons x B)
  from sort_sift_grp [of A "[]" x B] Cons.prems obtain Q where
    Q: "sort_sift grp_entry_cmp grp_entry_swap (A @ x # B) (length A) = Q @ B"
       "sorted (map (\<lambda>e. strkey (name e)) Q)" "mset Q = mset (A @ [x])"
    by auto
  from Q(3) have "size (mset Q) = size (mset (A @ [x]))" by simp
  then have len: "length Q = Suc (length A)" by simp
  from Cons.IH [OF Q(2)] show ?case
    using Q(1,3) len by simp
qed

lemma PHYSFS_sort_grp:
  "sorted (map (\<lambda>e. strkey (name e)) (PHYSFS_sort es (length es) grp_entry_cmp grp_entry_swap))
   \<and> mset (PHYSFS_sort es (length es) grp_entry_cmp grp_entry_swap) = mset es"
  using sort_from_grp [of "[]" es] by (simp add: PHYSFS_sort_def)

lemma sort_sift_mvl:
  "sort_sift mvl_entry_cmp mvl_entry_swap a j = sort_sift grp_entry_cmp grp_entry_swap a j"
  by (induction j arbitrary: a)
     (simp_all add: mvl_entry_cmp_def mvl_entry_swap_def grp_entry_cmp_def grp_entry_swap_def)

lemma sort_from_mvl:
  "sort_from mvl_entry_cmp mvl_entry_swap a i n = sort_from grp_entry_cmp grp_entry_swap a i n"
  by (induction n arbitrary: a i) (simp_all add: sort_sift_mvl)

lemma PHYSFS_sort_mvl:
  "PHYSFS_sort es n mvl_entry_cmp mvl_entry_swap = PHYSFS_sort es n grp_entry_cmp grp_entry_swap"
  by (simp add: PHYSFS_sort_def sort_from_mvl)


section \<open>The loader\<close>

lemma grp_read_loop_laid_out:
  "grp_read_loop w fh n loc = (w', Inr es) \<Longrightarrow> length es = n \<and> laid_out loc es"
proof (induction n arbitrary: w loc es)
  case 0
  then show ?case by simp
next
  case (Suc n)
  from Suc.prems have "\<exists>w2 e es'. startPos e = loc
      \<and> grp_read_loop w2 fh n (loc + size' e) = (w', Inr es') \<and> es = e # es'"
    by (simp add: Let_def split: prod.splits if_splits sum.splits) force
  then obtain w2 e es' where
    e: "startPos e = loc" and
    r: "grp_read_loop w2 fh n (loc + size' e) = (w', Inr es')" and
    es: "es = e # es'"
    by blast
  from Suc.IH [OF r] e es show ?case by simp
qed

lemma mvl_read_loop_laid_out:
  "mvl_read_loop w fh n loc = (w', Inr es) \<Longrightarrow> length es = n \<and> laid_out loc es"
proof (induction n arbitrary: w loc es)
  case 0
  then show ?case by simp
next
  case (Suc n)
  from Suc.prems have "\<exists>w2 e es'. startPos e = loc
      \<and> mvl_read_loop w2 fh n (loc + size' e) = (w', Inr es') \<and> es = e # es'"
    by (simp add: Let_def split: prod.splits if_splits sum.splits) force
  then obtain w2 e es' where
    e: "startPos e = loc" and
    r: "mvl_read_loop w2 fh n (loc + size' e) = (w', Inr es')" and
    es: "es = e # es'"
    by blast
  from Suc.IH [OF r] e es show ?case by simp
qed

lemma laid_out_first: "laid_out loc es \<Longrightarrow> es \<noteq> [] \<Longrightarrow> startPos (es ! 0) = loc"
  by (cases es) simp_all

lemma laid_out_next:
  "laid_out loc es \<Longrightarrow> Suc k < length es \<Longrightarrow>
     startPos (es ! Suc k) = startPos (es ! k) + size' (es ! k)"
proof (induction es arbitrary: loc k)
  case Nil
  then show ?case by simp
next
  case (Cons e es)
  show ?case
  proof (cases k)
    case 0
    with Cons.prems show ?thesis by (cases es) simp_all
  next
    case (Suc k')
    with Cons.prems Cons.IH [of "loc + size' e" k'] show ?thesis by simp
  qed
qed

lemma laid_out_unat:
  "laid_out loc es \<Longrightarrow> unat loc + (\<Sum>e\<leftarrow>es. unat (size' e)) < 2 ^ 32 \<Longrightarrow> k < length es \<Longrightarrow>
     unat (startPos (es ! k)) = unat loc + (\<Sum>e\<leftarrow>take k es. unat (size' e))"
proof (induction es arbitrary: loc k)
  case Nil
  then show ?case by simp
next
  case (Cons e es)
  show ?case
  proof (cases k)
    case 0
    with Cons.prems show ?thesis by simp
  next
    case (Suc k')
    have nowrap: "unat (loc + size' e) = unat loc + unat (size' e)"
      using Cons.prems(2) by (simp add: unat_word_ariths)
    have "unat (startPos (es ! k')) = unat (loc + size' e) + (\<Sum>e\<leftarrow>take k' es. unat (size' e))"
      using Cons.prems Suc by (intro Cons.IH) (simp_all add: nowrap)
    then show ?thesis using Suc nowrap by simp
  qed
qed

lemma sum_take_step:
  fixes f :: "'a \<Rightarrow> nat"
  assumes "i < j" "j \<le> length xs"
  shows "(\<Sum>x\<leftarrow>take i xs. f x) + f (xs ! i) \<le> (\<Sum>x\<leftarrow>take j xs. f x)"
proof -
  have "take j xs = take (Suc i) xs @ take (j - Suc i) (drop (Suc i) xs)"
    using assms by (metis Suc_leI le_add_diff_inverse take_add)
  moreover have "take (Suc i) xs = take i xs @ [xs ! i]"
    using assms by (simp add: take_Suc_conv_app_nth)
  ultimately show ?thesis by simp
qed

lemma laid_out_disjoint:
  assumes "laid_out loc es" and "unat loc + (\<Sum>e\<leftarrow>es. unat (size' e)) < 2 ^ 32"
    and "i < j" "j < length es"
  shows "unat (startPos (es ! i)) + unat (size' (es ! i)) \<le> unat (startPos (es ! j))"
    and "size' (es ! i) \<noteq> 0 \<Longrightarrow> startPos (es ! i) < startPos (es ! j)"
proof -
  have i: "unat (startPos (es ! i)) = unat loc + (\<Sum>e\<leftarrow>take i es. unat (size' e))"
    using assms by (intro laid_out_unat) simp_all
  have j: "unat (startPos (es ! j)) = unat loc + (\<Sum>e\<leftarrow>take j es. unat (size' e))"
    using assms by (intro laid_out_unat) simp_all
  have "(\<Sum>e\<leftarrow>take i es. unat (size' e)) + unat (size' (es ! i)) \<le> (\<Sum>e\<leftarrow>take j es. unat (size' e))"
    using assms(3,4) by (intro sum_take_step) simp_all
  then show le: "unat (startPos (es ! i)) + unat (size' (es ! i)) \<le> unat (startPos (es ! j))"
    using i j by simp
  assume "size' (es ! i) \<noteq> 0"
  then have "0 < unat (size' (es ! i))" by (simp add: unat_gt_0)
  with le show "startPos (es ! i) < startPos (es ! j)" by (simp add: word_less_nat_alt)
qed

lemma grp_read_loop_names:
  "grp_read_loop w fh n loc = (w', Inr es) \<Longrightarrow> \<forall>e\<in>set es. length (name e) \<le> 12"
proof (induction n arbitrary: w loc es)
  case 0
  then show ?case by simp
next
  case (Suc n)
  from Suc.prems have "\<exists>w1 w2 nm e es'. platformRead w fh 12 (Suc 0) = (w1, 1, nm)
      \<and> name e = takeWhile (\<lambda>c. c \<noteq> CHR 0x00 \<and> c \<noteq> CHR '' '') nm
      \<and> grp_read_loop w2 fh n (loc + size' e) = (w', Inr es') \<and> es = e # es'"
    by (simp add: Let_def split: prod.splits if_splits sum.splits) force
  then obtain w1 w2 nm e es' where
    r: "platformRead w fh 12 (Suc 0) = (w1, 1, nm)" and
    e: "name e = takeWhile (\<lambda>c. c \<noteq> CHR 0x00 \<and> c \<noteq> CHR '' '') nm" and
    l: "grp_read_loop w2 fh n (loc + size' e) = (w', Inr es')" and
    es: "es = e # es'"
    by blast
  from platformRead_bound(3) [OF r] have "length nm = 12" by simp
  then have "length (name e) \<le> 12"
    unfolding e using length_takeWhile_le [of "\<lambda>c. c \<noteq> CHR 0x00 \<and> c \<noteq> CHR '' ''" nm] by simp
  with Suc.IH [OF l] es show ?case by simp
qed

lemma grp_load_success:
  assumes "grp_load_entries w fname forWriting malloc_ok info = (w', Inr info')"
  shows "\<exists>w1 fh cnt w2 es.
           grp_open w fname False = (w1, Inr (fh, cnt))
           \<and> grp_read_loop w1 fh (unat cnt) (16 + 16 * cnt) = (w2, Inr es)
           \<and> info' = info\<lparr>entryCount := cnt,
                           entries := PHYSFS_sort es (unat cnt) grp_entry_cmp grp_entry_swap\<rparr>"
proof (cases forWriting)
  case True
  with assms show ?thesis by (simp add: grp_load_entries_def grp_open_def)
next
  case False
  with assms show ?thesis
    by (auto simp: grp_load_entries_def split: prod.splits sum.splits if_splits)
qed

lemma mvl_load_success:
  assumes "mvl_load_entries w fname forWriting malloc_ok info = (w', Inr info')"
  shows "\<exists>w1 fh cnt w2 es.
           mvl_open w fname False = (w1, Inr (fh, cnt))
           \<and> mvl_read_loop w1 fh (unat cnt) (8 + 17 * cnt) = (w2, Inr es)
           \<and> info' = info\<lparr>entryCount := cnt,
                           entries := PHYSFS_sort es (unat cnt) mvl_entry_cmp mvl_entry_swap\<rparr>"
proof (cases forWriting)
  case True
  with assms show ?thesis by (simp add: mvl_load_entries_def mvl_open_def)
next
  case False
  with assms show ?thesis
    by (auto simp: mvl_load_entries_def split: prod.splits sum.splits if_splits)
qed

lemma grp_load_names:
  assumes "grp_load_entries w fname forWriting malloc_ok info = (w', Inr info')"
    and "grp_disk_order w fname = Inr es"
  shows "\<forall>e\<in>set es. length (name e) \<le> 12"
proof -
  from grp_load_success [OF assms(1)] obtain w1 fh cnt w2 es' where
    o: "grp_open w fname False = (w1, Inr (fh, cnt))" and
    l: "grp_read_loop w1 fh (unat cnt) (16 + 16 * cnt) = (w2, Inr es')"
    by blast
  from assms(2) have "es = es'" by (simp add: grp_disk_order_def o l)
  with grp_read_loop_names [OF l] show ?thesis by simp
qed

lemma distinct_names_unique:
  "distinct (map name es) \<Longrightarrow> e \<in> set es \<Longrightarrow> e' \<in> set es \<Longrightarrow> name e' = name e \<Longrightarrow> e' = e"
  by (meson distinct_map inj_onD)

lemma grp_read_loop_parse:
  assumes "w_open w fh = Some \<lparr>h_bytes = bs, h_pos = p\<rparr>"
  shows "grp_read_loop w fh n loc =
     (case grp_parse (drop p bs) n loc of
        None \<Rightarrow> (w\<lparr>w_open := (w_open w)(fh := None)\<rparr>, Inl ERR_PLATFORM)
      | Some es \<Rightarrow> (w\<lparr>w_open := (w_open w)(fh \<mapsto> \<lparr>h_bytes = bs, h_pos = p + 16 * n\<rparr>)\<rparr>, Inr es))"
  using assms
proof (induction n arbitrary: w p loc)
  case 0
  then have "w\<lparr>w_open := (w_open w)(fh \<mapsto> \<lparr>h_bytes = bs, h_pos = p\<rparr>)\<rparr> = w"
    by (simp add: map_upd_triv)
  then show ?case by simp
next
  case (Suc n)
  show ?case
  proof (cases "p + 12 \<le> length bs")
    case False
    then have "length (drop p bs) < 16" by simp
    then show ?thesis using Suc.prems False
      by (simp add: platformRead_one platformClose_def del: length_drop)
  next
    case n12: True
    define w1 where "w1 = w\<lparr>w_open := (w_open w)(fh \<mapsto> \<lparr>h_bytes = bs, h_pos = p + 12\<rparr>)\<rparr>"
    have r1: "platformRead w fh 12 (Suc 0) = (w1, 1, take 12 (drop p bs))"
      using Suc.prems n12 by (simp add: platformRead_one w1_def)
    have o1: "w_open w1 fh = Some \<lparr>h_bytes = bs, h_pos = p + 12\<rparr>" by (simp add: w1_def)
    show ?thesis
    proof (cases "p + 16 \<le> length bs")
      case False
      then have "platformRead w1 fh 4 (Suc 0) = (w1, 0, [])"
        using o1 by (simp add: platformRead_one)
      moreover from False have "length (drop p bs) < 16" by simp
      ultimately show ?thesis using r1 o1
        by (simp add: platformClose_def w1_def del: length_drop)
    next
      case n16: True
      define w2 where "w2 = w\<lparr>w_open := (w_open w)(fh \<mapsto> \<lparr>h_bytes = bs, h_pos = p + 16\<rparr>)\<rparr>"
      have r2: "platformRead w1 fh 4 (Suc 0) = (w2, 1, take 4 (drop (p + 12) bs))"
        using o1 n16 by (simp add: platformRead_one w1_def w2_def add.commute)
      have o2: "w_open w2 fh = Some \<lparr>h_bytes = bs, h_pos = p + 16\<rparr>" by (simp add: w2_def)
      have d: "drop 16 (drop p bs) = drop (p + 16) bs" "drop 12 (drop p bs) = drop (p + 12) bs"
        by (simp_all add: add.commute)
      have l: "\<not> length (drop p bs) < 16" using n16 by simp
      have t: "take 12 (drop p bs) = take 12 (drop p bs)" ..
      show ?thesis
        using r1 r2 Suc.IH [OF o2] l
        by (simp add: Let_def w2_def ac_simps del: length_drop split: option.splits)
    qed
  qed
qed

lemma mvl_read_loop_parse:
  assumes "w_open w fh = Some \<lparr>h_bytes = bs, h_pos = p\<rparr>"
  shows "mvl_read_loop w fh n loc =
     (case mvl_parse (drop p bs) n loc of
        None \<Rightarrow> (w\<lparr>w_open := (w_open w)(fh := None)\<rparr>, Inl ERR_PLATFORM)
      | Some es \<Rightarrow> (w\<lparr>w_open := (w_open w)(fh \<mapsto> \<lparr>h_bytes = bs, h_pos = p + 17 * n\<rparr>)\<rparr>, Inr es))"
  using assms
proof (induction n arbitrary: w p loc)
  case 0
  then have "w\<lparr>w_open := (w_open w)(fh \<mapsto> \<lparr>h_bytes = bs, h_pos = p\<rparr>)\<rparr> = w"
    by (simp add: map_upd_triv)
  then show ?case by simp
next
  case (Suc n)
  show ?case
  proof (cases "p + 13 \<le> length bs")
    case False
    then have "length (drop p bs) < 17" by simp
    then show ?thesis using Suc.prems False
      by (simp add: platformRead_one platformClose_def del: length_drop)
  next
    case n13: True
    define w1 where "w1 = w\<lparr>w_open := (w_open w)(fh \<mapsto> \<lparr>h_bytes = bs, h_pos = p + 13\<rparr>)\<rparr>"
    have r1: "platformRead w fh 13 (Suc 0) = (w1, 1, take 13 (drop p bs))"
      using Suc.prems n13 by (simp add: platformRead_one w1_def)
    have o1: "w_open w1 fh = Some \<lparr>h_bytes = bs, h_pos = p + 13\<rparr>" by (simp add: w1_def)
    show ?thesis
    proof (cases "p + 17 \<le> length bs")
      case False
      then have "platformRead w1 fh 4 (Suc 0) = (w1, 0, [])"
        using o1 by (simp add: platformRead_one)
      moreover from False have "length (drop p bs) < 17" by simp
      ultimately show ?thesis using r1 o1
        by (simp add: platformClose_def w1_def del: length_drop)
    next
      case n17: True
      define w2 where "w2 = w\<lparr>w_open := (w_open w)(fh \<mapsto> \<lparr>h_bytes = bs, h_pos = p + 17\<rparr>)\<rparr>"
      have r2: "platformRead w1 fh 4 (Suc 0) = (w2, 1, take 4 (drop (p + 13) bs))"
        using o1 n17 by (simp add: platformRead_one w1_def w2_def add.commute)
      have o2: "w_open w2 fh = Some \<lparr>h_bytes = bs, h_pos = p + 17\<rparr>" by (simp add: w2_def)
      have d: "drop 17 (drop p bs) = drop (p + 17) bs" "drop 13 (drop p bs) = drop (p + 13) bs"
        by (simp_all add: add.commute)
      have l: "\<not> length (drop p bs) < 17" using n17 by simp
      have t: "take 13 (drop p bs) = take 13 (drop p bs)" ..
      show ?thesis
        using r1 r2 Suc.IH [OF o2] l
        by (simp add: Let_def w2_def ac_simps del: length_drop split: option.splits)
    qed
  qed
qed


lemma grp_load_entries_read:
  assumes "w_files w fname = Some bs" and "16 \<le> length bs" and "take 12 bs = ''KenSilverman''"
  shows "grp_load_entries w fname False True info =
     (w\<lparr>w_open := (w_open w)(w_next w := None), w_next := Suc (w_next w)\<rparr>,
      case grp_parse (drop 16 bs) (unat (swapULE32 (take 4 (drop 12 bs))))
             (16 + 16 * swapULE32 (take 4 (drop 12 bs))) of
        None \<Rightarrow> Inl ERR_PLATFORM
      | Some es \<Rightarrow>
          Inr (info\<lparr>entryCount := swapULE32 (take 4 (drop 12 bs)),
                    entries := PHYSFS_sort es (unat (swapULE32 (take 4 (drop 12 bs))))
                                 grp_entry_cmp grp_entry_swap\<rparr>))"
proof -
  define w1 where "w1 = w\<lparr>w_open := (w_open w)(w_next w \<mapsto> \<lparr>h_bytes = bs, h_pos = 16\<rparr>),
                          w_next := Suc (w_next w)\<rparr>"
  have o: "grp_open w fname False = (w1, Inr (w_next w, swapULE32 (take 4 (drop 12 bs))))"
    using assms by (simp add: grp_open_read w1_def)
  have h: "w_open w1 (w_next w) = Some \<lparr>h_bytes = bs, h_pos = 16\<rparr>" by (simp add: w1_def)
  show ?thesis
    unfolding grp_load_entries_def o
    by (simp add: grp_read_loop_parse [OF h] platformClose_def split: option.splits)
       (simp add: w1_def)
qed

lemma grp_disk_order_read:
  assumes "w_files w fname = Some bs" and "16 \<le> length bs" and "take 12 bs = ''KenSilverman''"
  shows "grp_disk_order w fname =
     (case grp_parse (drop 16 bs) (unat (swapULE32 (take 4 (drop 12 bs))))
             (16 + 16 * swapULE32 (take 4 (drop 12 bs))) of
        None \<Rightarrow> Inl ERR_PLATFORM
      | Some es \<Rightarrow> Inr es)"
proof -
  define w1 where "w1 = w\<lparr>w_open := (w_open w)(w_next w \<mapsto> \<lparr>h_bytes = bs, h_pos = 16\<rparr>),
                          w_next := Suc (w_next w)\<rparr>"
  have o: "grp_open w fname False = (w1, Inr (w_next w, swapULE32 (take 4 (drop 12 bs))))"
    using assms by (simp add: grp_open_read w1_def)
  have h: "w_open w1 (w_next w) = Some \<lparr>h_bytes = bs, h_pos = 16\<rparr>" by (simp add: w1_def)
  show ?thesis
    unfolding grp_disk_order_def o
    by (simp add: grp_read_loop_parse [OF h] split: option.splits)
qed

lemma mvl_load_entries_read:
  assumes "w_files w fname = Some bs" and "8 \<le> length bs" and "take 4 bs = ''DMVL''"
  shows "mvl_load_entries w fname False True info =
     (w\<lparr>w_open := (w_open w)(w_next w := None), w_next := Suc (w_next w)\<rparr>,
      case mvl_parse (drop 8 bs) (unat (swapULE32 (take 4 (drop 4 bs))))
             (8 + 17 * swapULE32 (take 4 (drop 4 bs))) of
        None \<Rightarrow> Inl ERR_PLATFORM
      | Some es \<Rightarrow>
          Inr (info\<lparr>entryCount := swapULE32 (take 4 (drop 4 bs)),
                    entries := PHYSFS_sort es (unat (swapULE32 (take 4 (drop 4 bs))))
                                 mvl_entry_cmp mvl_entry_swap\<rparr>))"
proof -
  define w1 where "w1 = w\<lparr>w_open := (w_open w)(w_next w \<mapsto> \<lparr>h_bytes = bs, h_pos = 8\<rparr>),
                          w_next := Suc (w_next w)\<rparr>"
  have o: "mvl_open w fname False = (w1, Inr (w_next w, swapULE32 (take 4 (drop 4 bs))))"
    using assms by (simp add: mvl_open_read w1_def)
  have h: "w_open w1 (w_next w) = Some \<lparr>h_bytes = bs, h_pos = 8\<rparr>" by (simp add: w1_def)
  show ?thesis
    unfolding mvl_load_entries_def o
    by (simp add: mvl_read_loop_parse [OF h] platformClose_def split: option.splits)
       (simp add: w1_def)
qed

lemma mvl_disk_order_read:
  assumes "w_files w fname = Some bs" and "8 \<le> length bs" and "take 4 bs = ''DMVL''"
  shows "mvl_disk_order w fname =
     (case mvl_parse (drop 8 bs) (unat (swapULE32 (take 4 (drop 4 bs))))
             (8 + 17 * swapULE32 (take 4 (drop 4 bs))) of
        None \<Rightarrow> Inl ERR_PLATFORM
      | Some es \<Rightarrow> Inr es)"
proof -
  define w1 where "w1 = w\<lparr>w_open := (w_open w)(w_next w \<mapsto> \<lparr>h_bytes = bs, h_pos = 8\<rparr>),
                          w_next := Suc (w_next w)\<rparr>"
  have o: "mvl_open w fname False = (w1, Inr (w_next w, swapULE32 (take 4 (drop 4 bs))))"
    using assms by (simp add: mvl_open_read w1_def)
  have h: "w_open w1 (w_next w) = Some \<lparr>h_bytes = bs, h_pos = 8\<rparr>" by (simp add: w1_def)
  show ?thesis
    unfolding mvl_disk_order_def o
    by (simp add: mvl_read_loop_parse [OF h] split: option.splits)
qed

lemma demo_files:
  "w_files demo_world ''demo.grp'' = Some demo_grp"
  "w_files demo_world ''zero.grp'' = Some zero_grp"
  "w_files demo_world ''longext.grp'' = Some longext_grp"
  "w_files demo_world ''empty.grp'' = Some empty_grp"
  "w_files demo_world ''demo.mvl'' = Some demo_mvl"
  "w_files demo_world ''mixed.mvl'' = Some mixed_mvl"
  "w_files demo_world ''empty.mvl'' = Some empty_mvl"
  by (simp_all add: demo_world_def)

lemma grp_load_entries_eval:
  assumes "w_files w fname = Some bs" and "16 \<le> length bs" and "take 12 bs = ''KenSilverman''"
    and "swapULE32 (take 4 (drop 12 bs)) = cnt" and "unat cnt = n"
    and "grp_parse (drop 16 bs) n (16 + 16 * cnt) = Some es"
    and "PHYSFS_sort es n grp_entry_cmp grp_entry_swap = sorted_es"
  shows "grp_load_entries w fname False True info =
           (w\<lparr>w_open := (w_open w)(w_next w := None), w_next := Suc (w_next w)\<rparr>,
            Inr (info\<lparr>entryCount := cnt, entries := sorted_es\<rparr>))"
    and "grp_disk_order w fname = Inr es"
  unfolding grp_load_entries_read [OF assms(1-3)] grp_disk_order_read [OF assms(1-3)]
    assms(4) assms(5) assms(6) by (simp_all add: assms(7))

lemma mvl_load_entries_eval:
  assumes "w_files w fname = Some bs" and "8 \<le> length bs" and "take 4 bs = ''DMVL''"
    and "swapULE32 (take 4 (drop 4 bs)) = cnt" and "unat cnt = n"
    and "mvl_parse (drop 8 bs) n (8 + 17 * cnt) = Some es"
    and "PHYSFS_sort es n mvl_entry_cmp mvl_entry_swap = sorted_es"
  shows "mvl_load_entries w fname False True info =
           (w\<lparr>w_open := (w_open w)(w_next w := None), w_next := Suc (w_next w)\<rparr>,
            Inr (info\<lparr>entryCount := cnt, entries := sorted_es\<rparr>))"
    and "mvl_disk_order w fname = Inr es"
  unfolding mvl_load_entries_read [OF assms(1-3)] mvl_disk_order_read [OF assms(1-3)]
    assms(4) assms(5) assms(6) by (simp_all add: assms(7))

lemmas sort_defs = PHYSFS_sort_def grp_entry_cmp_def grp_entry_swap_def
  mvl_entry_cmp_def mvl_entry_swap_def


section \<open>The binary search\<close>

lemma snd_probe [simp]: "snd (probe m r) = snd r"
  by (simp add: probe_def)

lemma find_loop_correct:
  fixes k :: "string \<Rightarrow> 'k :: linorder"
  assumes lt: "\<And>x y. cmp x y < 0 \<longleftrightarrow> k x < k y"
    and eq: "\<And>x y. cmp x y = 0 \<longleftrightarrow> k x = k y"
    and sorted: "sorted (map (\<lambda>e. k (name e)) a)"
  shows "0 \<le> lo \<Longrightarrow> hi < int (length a) \<Longrightarrow>
     (case snd (find_loop cmp a nm lo hi) of
        Inr e \<Rightarrow> (\<exists>i. lo \<le> i \<and> i \<le> hi \<and> e = a ! nat i) \<and> k (name e) = k nm
      | Inl err \<Rightarrow> err = ERR_NO_SUCH_FILE
                   \<and> (\<forall>i. lo \<le> i \<and> i \<le> hi \<longrightarrow> k (name (a ! nat i)) \<noteq> k nm))"
proof (induction "nat (hi - lo + 1)" arbitrary: lo hi rule: less_induct)
  case less
  show ?case
  proof (cases "lo \<le> hi")
    case False
    then show ?thesis by (auto simp: find_loop_empty)
  next
    case True
    define middle where "middle = lo + (hi - lo) div 2"
    have m: "lo \<le> middle" "middle \<le> hi" using True by (simp_all add: middle_def)
    have inr: "0 \<le> middle \<and> nat middle < length a" using m less.prems by simp
    have mono: "k (name (a ! i)) \<le> k (name (a ! j))" if "i \<le> j" "j < length a" for i j
    proof -
      have "map (\<lambda>e. k (name e)) a ! i \<le> map (\<lambda>e. k (name e)) a ! j"
        using sorted that by (intro sorted_nth_mono) simp_all
      then show ?thesis using that by simp
    qed
    consider (found) "cmp nm (name (a ! nat middle)) = 0"
      | (right) "0 < cmp nm (name (a ! nat middle))"
      | (left) "cmp nm (name (a ! nat middle)) < 0"
      by linarith
    then show ?thesis
    proof cases
      case found
      then have "snd (find_loop cmp a nm lo hi) = Inr (a ! nat middle)"
        using True inr by (subst find_loop.simps) (simp add: middle_def Let_def)
      moreover have "k (name (a ! nat middle)) = k nm" using found eq by simp
      ultimately show ?thesis using m by auto
    next
      case right
      then have r: "snd (find_loop cmp a nm lo hi) = snd (find_loop cmp a nm (middle + 1) hi)"
        using True inr by (subst find_loop.simps) (simp add: middle_def Let_def)
      have "\<not> cmp nm (name (a ! nat middle)) < 0" "cmp nm (name (a ! nat middle)) \<noteq> 0"
        using right by simp_all
      then have gt: "k (name (a ! nat middle)) < k nm"
        using lt [of nm "name (a ! nat middle)"] eq [of nm "name (a ! nat middle)"]
        by auto
      have below: "k (name (a ! nat i)) \<noteq> k nm" if "lo \<le> i" "i \<le> middle" for i
      proof -
        have "nat i \<le> nat middle" using that by simp
        then have "k (name (a ! nat i)) \<le> k (name (a ! nat middle))"
          using mono inr by simp
        with gt show ?thesis by simp
      qed
      have IH: "case snd (find_loop cmp a nm (middle + 1) hi) of
        Inr e \<Rightarrow> (\<exists>i. middle + 1 \<le> i \<and> i \<le> hi \<and> e = a ! nat i) \<and> k (name e) = k nm
      | Inl err \<Rightarrow> err = ERR_NO_SUCH_FILE
                   \<and> (\<forall>i. middle + 1 \<le> i \<and> i \<le> hi \<longrightarrow> k (name (a ! nat i)) \<noteq> k nm)"
        using m less.prems True by (intro less.hyps) simp_all
      show ?thesis
      proof (cases "snd (find_loop cmp a nm (middle + 1) hi)")
        case (Inl err)
        have "k (name (a ! nat i)) \<noteq> k nm" if "lo \<le> i" "i \<le> hi" for i
        proof (cases "i \<le> middle")
          case True
          then show ?thesis using below that by simp
        next
          case False
          then have "middle + 1 \<le> i" by simp
          then show ?thesis using IH Inl that by simp
        qed
        then show ?thesis using IH Inl r by simp
      next
        case (Inr e)
        then obtain i where "middle + 1 \<le> i" "i \<le> hi" "e = a ! nat i" "k (name e) = k nm"
          using IH by auto
        then have "lo \<le> i \<and> i \<le> hi \<and> e = a ! nat i" using m by simp
        then show ?thesis using Inr r \<open>k (name e) = k nm\<close> by auto
      qed
    next
      case left
      then have r: "snd (find_loop cmp a nm lo hi) = snd (find_loop cmp a nm lo (middle - 1))"
        using True inr by (subst find_loop.simps) (simp add: middle_def Let_def)
      have gt: "k nm < k (name (a ! nat middle))"
        using left lt [of nm "name (a ! nat middle)"] by simp
      have above: "k (name (a ! nat i)) \<noteq> k nm" if "middle \<le> i" "i \<le> hi" for i
      proof -
        have "nat middle \<le> nat i" "nat i < length a" using that inr less.prems by linarith+
        then have "k (name (a ! nat middle)) \<le> k (name (a ! nat i))"
          using mono by simp
        with gt show ?thesis by simp
      qed
      have IH: "case snd (find_loop cmp a nm lo (middle - 1)) of
        Inr e \<Rightarrow> (\<exists>i. lo \<le> i \<and> i \<le> middle - 1 \<and> e = a ! nat i) \<and> k (name e) = k nm
      | Inl err \<Rightarrow> err = ERR_NO_SUCH_FILE
                   \<and> (\<forall>i. lo \<le> i \<and> i \<le> middle - 1 \<longrightarrow> k (name (a ! nat i)) \<noteq> k nm)"
        using m less.prems True by (intro less.hyps) simp_all
      show ?thesis
      proof (cases "snd (find_loop cmp a nm lo (middle - 1))")
        case (Inl err)
        have "k (name (a ! nat i)) \<noteq> k nm" if "lo \<le> i" "i \<le> hi" for i
        proof (cases "middle \<le> i")
          case True
          then show ?thesis using above that by simp
        next
          case False
          then have "i \<le> middle - 1" by simp
          then show ?thesis using IH Inl that by simp
        qed
        then show ?thesis using IH Inl r by simp
      next
        case (Inr e)
        then obtain i where "lo \<le> i" "i \<le> middle - 1" "e = a ! nat i" "k (name e) = k nm"
          using IH by auto
        then have "lo \<le> i \<and> i \<le> hi \<and> e = a ! nat i" using m by simp
        then show ?thesis using Inr r \<open>k (name e) = k nm\<close> by auto
      qed
    qed
  qed
qed

lemma sint_count_minus_1:
  fixes c :: uint32
  assumes "uint c < 2 ^ 31"
  shows "sint (c - 1) = uint c - 1"
proof (cases "c = 0")
  case True
  then show ?thesis by simp
next
  case False
  then have "1 \<le> c" by (simp add: word_le_nat_alt unat_gt_0 Suc_leI)
  then have "uint (1 :: uint32) \<le> uint c" by (simp only: word_le_def)
  then have u: "uint (c - 1) = uint c - 1" using uint_sub_lem [where x = c and y = 1] by simp
  then have "uint (c - 1) < 2 ^ 31" using assms by simp
  moreover have "- (2 ^ 31) \<le> uint (c - 1)" by (rule order_trans [of _ 0]) simp_all
  ultimately have "signed_take_bit 31 (uint (c - 1)) = uint (c - 1)"
    by (intro signed_take_bit_int_eq_self) simp_all
  then show ?thesis using u by (simp add: sint_uint)
qed

lemma strkey_inj: "strkey a = strkey b \<longleftrightarrow> a = b"
  using strcmp_eq_iff [of a b] strcmp_key_eq_iff [of a b] by simp

text \<open>Lookup in a sorted container, for a name that passes the checks.\<close>

lemma search_sorted:
  fixes k :: "string \<Rightarrow> 'k :: linorder"
  assumes lt: "\<And>x y. cmp x y < 0 \<longleftrightarrow> k x < k y"
    and eq: "\<And>x y. cmp x y = 0 \<longleftrightarrow> k x = k y"
    and sorted: "sorted (map (\<lambda>e. k (name e)) (entries info))"
    and len: "length (entries info) = unat (entryCount info)"
    and small: "uint (entryCount info) < 2 ^ 31"
  shows "((\<exists>e\<in>set (entries info). cmp nm (name e) = 0) \<longrightarrow>
           (\<exists>e\<in>set (entries info).
              snd (find_loop cmp (entries info) nm 0 (sint (entryCount info - 1))) = Inr e
              \<and> cmp nm (name e) = 0))
       \<and> (\<not> (\<exists>e\<in>set (entries info). cmp nm (name e) = 0) \<longrightarrow>
           snd (find_loop cmp (entries info) nm 0 (sint (entryCount info - 1)))
             = Inl ERR_NO_SUCH_FILE)"
proof -
  define a where "a = entries info"
  define hi where "hi = sint (entryCount info - 1)"
  have hi: "hi = int (length a) - 1"
    unfolding hi_def a_def len using sint_count_minus_1 [OF small] by simp
  have c: "case snd (find_loop cmp a nm 0 hi) of
        Inr e \<Rightarrow> (\<exists>i. 0 \<le> i \<and> i \<le> hi \<and> e = a ! nat i) \<and> k (name e) = k nm
      | Inl err \<Rightarrow> err = ERR_NO_SUCH_FILE
                   \<and> (\<forall>i. 0 \<le> i \<and> i \<le> hi \<longrightarrow> k (name (a ! nat i)) \<noteq> k nm)"
    using sorted by (intro find_loop_correct [OF lt eq]) (simp_all add: a_def hi)
  have keq: "cmp nm x = 0 \<longleftrightarrow> k x = k nm" for x using eq [of nm x] by auto
  show ?thesis
  proof (cases "snd (find_loop cmp a nm 0 hi)")
    case (Inl err)
    with c have e: "err = ERR_NO_SUCH_FILE"
      and none: "\<forall>i. 0 \<le> i \<and> i \<le> hi \<longrightarrow> k (name (a ! nat i)) \<noteq> k nm" by simp_all
    have "k (name e) \<noteq> k nm" if "e \<in> set a" for e
    proof -
      from that obtain j where j: "j < length a" "e = a ! j" by (auto simp: in_set_conv_nth)
      then have "0 \<le> int j \<and> int j \<le> hi" using hi by simp
      with none have "k (name (a ! nat (int j))) \<noteq> k nm" by blast
      with j show ?thesis by simp
    qed
    then have "\<not> (\<exists>e\<in>set a. cmp nm (name e) = 0)" by (simp add: keq)
    with Inl e show ?thesis unfolding a_def [symmetric] hi_def [symmetric] by simp
  next
    case (Inr e)
    with c obtain i where i: "0 \<le> i" "i \<le> hi" "e = a ! nat i" and ke: "k (name e) = k nm"
      by auto
    then have "nat i < length a" using hi by simp
    with i have "e \<in> set a" by simp
    with Inr ke show ?thesis
      unfolding a_def [symmetric] hi_def [symmetric] by (auto simp: keq)
  qed
qed


section \<open>Offsets in on-disk order\<close>

lemma grp_load_layout:
  assumes "grp_load_entries w fname forWriting malloc_ok info = (w', Inr info')"
  shows "\<exists>es. grp_disk_order w fname = Inr es \<and> length es = unat (entryCount info')
     \<and> laid_out (16 + 16 * entryCount info') es
     \<and> entries info' = PHYSFS_sort es (length es) grp_entry_cmp grp_entry_swap"
proof -
  from grp_load_success [OF assms] obtain w1 fh cnt w2 es where
    o: "grp_open w fname False = (w1, Inr (fh, cnt))" and
    l: "grp_read_loop w1 fh (unat cnt) (16 + 16 * cnt) = (w2, Inr es)" and
    i: "info' = info\<lparr>entryCount := cnt,
                     entries := PHYSFS_sort es (unat cnt) grp_entry_cmp grp_entry_swap\<rparr>"
    by blast
  from grp_read_loop_laid_out [OF l] have "length es = unat cnt" "laid_out (16 + 16 * cnt) es"
    by simp_all
  moreover have "grp_disk_order w fname = Inr es" by (simp add: grp_disk_order_def o l)
  ultimately show ?thesis using i by simp
qed

lemma mvl_load_layout:
  assumes "mvl_load_entries w fname forWriting malloc_ok info = (w', Inr info')"
  shows "\<exists>es. mvl_disk_order w fname = Inr es \<and> length es = unat (entryCount info')
     \<and> laid_out (8 + 17 * entryCount info') es
     \<and> entries info' = PHYSFS_sort es (length es) grp_entry_cmp grp_entry_swap"
proof -
  from mvl_load_success [OF assms] obtain w1 fh cnt w2 es where
    o: "mvl_open w fname False = (w1, Inr (fh, cnt))" and
    l: "mvl_read_loop w1 fh (unat cnt) (8 + 17 * cnt) = (w2, Inr es)" and
    i: "info' = info\<lparr>entryCount := cnt,
                     entries := PHYSFS_sort es (unat cnt) mvl_entry_cmp mvl_entry_swap\<rparr>"
    by blast
  from mvl_read_loop_laid_out [OF l] have "length es = unat cnt" "laid_out (8 + 17 * cnt) es"
    by simp_all
  moreover have "mvl_disk_order w fname = Inr es" by (simp add: mvl_disk_order_def o l)
  ultimately show ?thesis using i by (simp add: PHYSFS_sort_mvl)
qed

lemma laid_out_facts:
  assumes lo: "laid_out loc es"
  shows "(es \<noteq> [] \<longrightarrow> startPos (es ! 0) = loc)
     \<and> (\<forall>k. Suc k < length es \<longrightarrow> startPos (es ! Suc k) = startPos (es ! k) + size' (es ! k))
     \<and> (unat loc + (\<Sum>e\<leftarrow>es. unat (size' e)) < 2 ^ 32 \<longrightarrow>
          (\<forall>i j. i < j \<and> j < length es \<longrightarrow>
             unat (startPos (es ! i)) + unat (size' (es ! i)) \<le> unat (startPos (es ! j))
             \<and> (size' (es ! i) \<noteq> 0 \<longrightarrow> startPos (es ! i) < startPos (es ! j))))"
  using laid_out_first [OF lo] laid_out_next [OF lo] laid_out_disjoint [OF lo]
  by blast

lemma header_nowrap:
  fixes c :: uint32
  assumes "h + r * unat c + s < 2 ^ 32" and "h < 2 ^ 32" and "r < 2 ^ 32"
  shows "unat (of_nat h + of_nat r * c) = h + r * unat c"
proof -
  have "r * unat c < 2 ^ 32" "h + r * unat c < 2 ^ 32" using assms(1) by simp_all
  then show ?thesis using assms(2,3)
    by (simp add: unat_word_ariths unat_of_nat)
qed


text \<open>
  Claim C3, as amended. After a successful load, take the entries in on-disk order (the
  array as the loop filled it; the container holds the same entries, sorted). Entry 0
  starts at \<open>16 + 16 * count\<close> (GRP) or \<open>8 + 17 * count\<close> (MVL), and each entry starts
  where the previous one ends, \<open>startPos[k+1] = startPos[k] + size[k]\<close>, both in unsigned
  32-bit arithmetic. When header, table and data together stay below \<open>2^32\<close> bytes, an
  earlier entry ends at or before the start of every later one, so offsets never decrease
  and ranges do not overlap; the offset strictly increases after an entry of non-zero size
  (entries of size 0 share their offset with the next entry).
\<close>

theorem start_positions_on_disk:
  "(grp_load_entries w fname forWriting malloc_ok info = (w', Inr info') \<longrightarrow>
      (\<exists>es. grp_disk_order w fname = Inr es \<and> length es = unat (entryCount info')
          \<and> mset (entries info') = mset es
          \<and> (es \<noteq> [] \<longrightarrow> startPos (es ! 0) = 16 + 16 * entryCount info')
          \<and> (\<forall>k. Suc k < length es \<longrightarrow>
                startPos (es ! Suc k) = startPos (es ! k) + size' (es ! k))
          \<and> (16 + 16 * unat (entryCount info') + (\<Sum>e\<leftarrow>es. unat (size' e)) < 2 ^ 32 \<longrightarrow>
               (\<forall>i j. i < j \<and> j < length es \<longrightarrow>
                  unat (startPos (es ! i)) + unat (size' (es ! i)) \<le> unat (startPos (es ! j))
                  \<and> (size' (es ! i) \<noteq> 0 \<longrightarrow> startPos (es ! i) < startPos (es ! j))))))
   \<and> (mvl_load_entries w fname forWriting malloc_ok info = (w', Inr info') \<longrightarrow>
      (\<exists>es. mvl_disk_order w fname = Inr es \<and> length es = unat (entryCount info')
          \<and> mset (entries info') = mset es
          \<and> (es \<noteq> [] \<longrightarrow> startPos (es ! 0) = 8 + 17 * entryCount info')
          \<and> (\<forall>k. Suc k < length es \<longrightarrow>
                startPos (es ! Suc k) = startPos (es ! k) + size' (es ! k))
          \<and> (8 + 17 * unat (entryCount info') + (\<Sum>e\<leftarrow>es. unat (size' e)) < 2 ^ 32 \<longrightarrow>
               (\<forall>i j. i < j \<and> j < length es \<longrightarrow>
                  unat (startPos (es ! i)) + unat (size' (es ! i)) \<le> unat (startPos (es ! j))
                  \<and> (size' (es ! i) \<noteq> 0 \<longrightarrow> startPos (es ! i) < startPos (es ! j))))))"
proof (intro conjI impI)
  assume "grp_load_entries w fname forWriting malloc_ok info = (w', Inr info')"
  from grp_load_layout [OF this] obtain es where
    d: "grp_disk_order w fname = Inr es" and n: "length es = unat (entryCount info')" and
    lo: "laid_out (16 + 16 * entryCount info') es" and
    s: "entries info' = PHYSFS_sort es (length es) grp_entry_cmp grp_entry_swap"
    by blast
  have m: "mset (entries info') = mset es" unfolding s using PHYSFS_sort_grp [of es] by simp
  have u: "unat (16 + 16 * entryCount info') = 16 + 16 * unat (entryCount info')"
    if "16 + 16 * unat (entryCount info') + (\<Sum>e\<leftarrow>es. unat (size' e)) < 2 ^ 32"
    using header_nowrap [OF that] by simp
  note f = laid_out_facts [OF lo]
  have "16 + 16 * unat (entryCount info') + (\<Sum>e\<leftarrow>es. unat (size' e)) < 2 ^ 32 \<longrightarrow>
               (\<forall>i j. i < j \<and> j < length es \<longrightarrow>
                  unat (startPos (es ! i)) + unat (size' (es ! i)) \<le> unat (startPos (es ! j))
                  \<and> (size' (es ! i) \<noteq> 0 \<longrightarrow> startPos (es ! i) < startPos (es ! j)))"
    using f u by simp
  with d n m f show "\<exists>es. grp_disk_order w fname = Inr es \<and> length es = unat (entryCount info')
          \<and> mset (entries info') = mset es
          \<and> (es \<noteq> [] \<longrightarrow> startPos (es ! 0) = 16 + 16 * entryCount info')
          \<and> (\<forall>k. Suc k < length es \<longrightarrow>
                startPos (es ! Suc k) = startPos (es ! k) + size' (es ! k))
          \<and> (16 + 16 * unat (entryCount info') + (\<Sum>e\<leftarrow>es. unat (size' e)) < 2 ^ 32 \<longrightarrow>
               (\<forall>i j. i < j \<and> j < length es \<longrightarrow>
                  unat (startPos (es ! i)) + unat (size' (es ! i)) \<le> unat (startPos (es ! j))
                  \<and> (size' (es ! i) \<noteq> 0 \<longrightarrow> startPos (es ! i) < startPos (es ! j))))"
    by blast
next
  assume "mvl_load_entries w fname forWriting malloc_ok info = (w', Inr info')"
  from mvl_load_layout [OF this] obtain es where
    d: "mvl_disk_order w fname = Inr es" and n: "length es = unat (entryCount info')" and
    lo: "laid_out (8 + 17 * entryCount info') es" and
    s: "entries info' = PHYSFS_sort es (length es) grp_entry_cmp grp_entry_swap"
    by blast
  have m: "mset (entries info') = mset es" unfolding s using PHYSFS_sort_grp [of es] by simp
  have u: "unat (8 + 17 * entryCount info') = 8 + 17 * unat (entryCount info')"
    if "8 + 17 * unat (entryCount info') + (\<Sum>e\<leftarrow>es. unat (size' e)) < 2 ^ 32"
    using header_nowrap [OF that] by simp
  note f = laid_out_facts [OF lo]
  have "8 + 17 * unat (entryCount info') + (\<Sum>e\<leftarrow>es. unat (size' e)) < 2 ^ 32 \<longrightarrow>
               (\<forall>i j. i < j \<and> j < length es \<longrightarrow>
                  unat (startPos (es ! i)) + unat (size' (es ! i)) \<le> unat (startPos (es ! j))
                  \<and> (size' (es ! i) \<noteq> 0 \<longrightarrow> startPos (es ! i) < startPos (es ! j)))"
    using f u by simp
  with d n m f show "\<exists>es. mvl_disk_order w fname = Inr es \<and> length es = unat (entryCount info')
          \<and> mset (entries info') = mset es
          \<and> (es \<noteq> [] \<longrightarrow> startPos (es ! 0) = 8 + 17 * entryCount info')
          \<and> (\<forall>k. Suc k < length es \<longrightarrow>
                startPos (es ! Suc k) = startPos (es ! k) + size' (es ! k))
          \<and> (8 + 17 * unat (entryCount info') + (\<Sum>e\<leftarrow>es. unat (size' e)) < 2 ^ 32 \<longrightarrow>
               (\<forall>i j. i < j \<and> j < length es \<longrightarrow>
                  unat (startPos (es ! i)) + unat (size' (es ! i)) \<le> unat (startPos (es ! j))
                  \<and> (size' (es ! i) \<noteq> 0 \<longrightarrow> startPos (es ! i) < startPos (es ! j))))"
    by blast
qed


section \<open>Lookup in a loaded container\<close>

lemma grp_lookup_loaded:
  assumes load: "grp_load_entries w fname forWriting malloc_ok info0 = (w', Inr info)"
    and small: "unat (entryCount info) < 2 ^ 31"
  shows "\<exists>es. grp_disk_order w fname = Inr es \<and> mset (entries info) = mset es
     \<and> (\<forall>nm. nm \<in> name ` set es \<and> CHR ''/'' \<notin> set nm
              \<and> \<not> (\<exists>pre suf. nm = pre @ CHR ''.'' # suf \<and> 3 < length suf) \<longrightarrow>
            (\<exists>e\<in>set es. snd (grp_find_entry info nm) = Inr e \<and> name e = nm))
     \<and> (\<forall>nm. nm \<notin> name ` set es \<longrightarrow> snd (grp_find_entry info nm) = Inl ERR_NO_SUCH_FILE)"
proof -
  from grp_load_layout [OF load] obtain es where
    d: "grp_disk_order w fname = Inr es" and n: "length es = unat (entryCount info)" and
    s: "entries info = PHYSFS_sort es (length es) grp_entry_cmp grp_entry_swap"
    by blast
  have m: "mset (entries info) = mset es" unfolding s using PHYSFS_sort_grp [of es] by simp
  then have set: "set (entries info) = set es" by (rule mset_eq_setD)
  from m have "size (mset (entries info)) = size (mset es)" by simp
  then have len: "length (entries info) = unat (entryCount info)" using n by simp
  have sorted: "sorted (map (\<lambda>e. strkey (name e)) (entries info))"
    unfolding s using PHYSFS_sort_grp [of es] by simp
  have sm: "uint (entryCount info) < 2 ^ 31"
    using small by (simp add: uint_nat del: of_nat_unat)
  note short = grp_load_names [OF load d]
  note ss = search_sorted [where cmp = strcmp and k = strkey, OF strcmp_less_iff
      strcmp_key_eq_iff sorted len sm]
  have hit: "\<exists>e\<in>set es. snd (grp_find_entry info nm) = Inr e \<and> name e = nm"
    if "nm \<in> name ` set es" "CHR ''/'' \<notin> set nm"
       "\<not> (\<exists>pre suf. nm = pre @ CHR ''.'' # suf \<and> 3 < length suf)" for nm
  proof -
    from that(1) short have "length nm \<le> 12" by auto
    then have g: "grp_find_entry info nm
        = find_loop strcmp (entries info) nm 0 (sint (entryCount info - 1))"
      using that unfolding grp_find_entry_cases by auto
    from that(1) have "\<exists>e\<in>set (entries info). strcmp nm (name e) = 0"
      unfolding set by (auto simp: strcmp_eq_iff)
    with ss [of nm] show ?thesis unfolding g set by (auto simp: strcmp_eq_iff)
  qed
  have miss: "snd (grp_find_entry info nm) = Inl ERR_NO_SUCH_FILE"
    if "nm \<notin> name ` set es" for nm
  proof -
    from that have "\<not> (\<exists>e\<in>set (entries info). strcmp nm (name e) = 0)"
      unfolding set by (auto simp: strcmp_eq_iff)
    with ss [of nm] show ?thesis unfolding grp_find_entry_cases by auto
  qed
  from d m hit miss show ?thesis by blast
qed

lemma stricmp_le_iff:
  "platformStricmp a b \<le> 0 \<longleftrightarrow> strkey (map tolower a) \<le> strkey (map tolower b)"
  using stricmp_less_iff [of a b] stricmp_eq_iff [of a b] by (auto simp: order_le_less)

lemma mvl_lookup_loaded:
  assumes load: "mvl_load_entries w fname forWriting malloc_ok info0 = (w', Inr info)"
    and small: "unat (entryCount info) < 2 ^ 31"
    and ordered: "sorted_wrt (\<lambda>x y. platformStricmp (name x) (name y) \<le> 0) (entries info)"
  shows "\<exists>es. mvl_disk_order w fname = Inr es \<and> mset (entries info) = mset es
     \<and> (\<forall>nm. (\<exists>e\<in>set es. platformStricmp nm (name e) = 0) \<and> length nm \<le> 12
              \<and> CHR ''/'' \<notin> set nm
              \<and> \<not> (\<exists>pre suf. nm = pre @ CHR ''.'' # suf \<and> 3 < length suf) \<longrightarrow>
            (\<exists>e\<in>set es. snd (mvl_find_entry info nm) = Inr e
                         \<and> platformStricmp nm (name e) = 0))
     \<and> (\<forall>nm. \<not> (\<exists>e\<in>set es. platformStricmp nm (name e) = 0) \<longrightarrow>
            snd (mvl_find_entry info nm) = Inl ERR_NO_SUCH_FILE)"
proof -
  from mvl_load_layout [OF load] obtain es where
    d: "mvl_disk_order w fname = Inr es" and n: "length es = unat (entryCount info)" and
    s: "entries info = PHYSFS_sort es (length es) grp_entry_cmp grp_entry_swap"
    by blast
  have m: "mset (entries info) = mset es" unfolding s using PHYSFS_sort_grp [of es] by simp
  then have set: "set (entries info) = set es" by (rule mset_eq_setD)
  from m have "size (mset (entries info)) = size (mset es)" by simp
  then have len: "length (entries info) = unat (entryCount info)" using n by simp
  have sorted: "sorted (map (\<lambda>e. strkey (map tolower (name e))) (entries info))"
    using ordered by (simp add: sorted_map stricmp_le_iff)
  have sm: "uint (entryCount info) < 2 ^ 31"
    using small by (simp add: uint_nat del: of_nat_unat)
  note ss = search_sorted [where cmp = platformStricmp and k = "\<lambda>s. strkey (map tolower s)",
      OF stricmp_less_iff stricmp_eq_iff sorted len sm]
  have hit: "\<exists>e\<in>set es. snd (mvl_find_entry info nm) = Inr e \<and> platformStricmp nm (name e) = 0"
    if "\<exists>e\<in>set es. platformStricmp nm (name e) = 0" "length nm \<le> 12" "CHR ''/'' \<notin> set nm"
       "\<not> (\<exists>pre suf. nm = pre @ CHR ''.'' # suf \<and> 3 < length suf)" for nm
  proof -
    have g: "mvl_find_entry info nm
        = find_loop platformStricmp (entries info) nm 0 (sint (entryCount info - 1))"
      using that unfolding mvl_find_entry_cases by auto
    from that(1) ss [of nm] show ?thesis unfolding g set by auto
  qed
  have miss: "snd (mvl_find_entry info nm) = Inl ERR_NO_SUCH_FILE"
    if "\<not> (\<exists>e\<in>set es. platformStricmp nm (name e) = 0)" for nm
    using that ss [of nm] unfolding mvl_find_entry_cases set by auto
  from d m hit miss show ?thesis by blast
qed

lemma exists_openRead_found:
  assumes "snd (grp_find_entry info nm) = Inr e"
  shows "GRP_exists info nm" and "fst (snd (GRP_openRead w info nm m1 m2))"
    and "snd (snd (GRP_openRead w info nm m1 m2)) = Inr f \<Longrightarrow> entry f = e \<and> curPos f = 0"
  using assms
  by (auto simp: GRP_exists_def GRP_openRead_def split: prod.splits option.splits if_splits)

lemma exists_openRead_missing:
  assumes "snd (grp_find_entry info nm) = Inl err"
  shows "\<not> GRP_exists info nm" and "GRP_openRead w info nm m1 m2 = (w, False, Inl err)"
  using assms by (auto simp: GRP_exists_def GRP_openRead_def)

lemma mvl_exists_openRead_found:
  assumes "snd (mvl_find_entry info nm) = Inr e"
  shows "MVL_exists info nm" and "fst (snd (MVL_openRead w info nm m1 m2))"
    and "snd (snd (MVL_openRead w info nm m1 m2)) = Inr f \<Longrightarrow> entry f = e \<and> curPos f = 0"
  using assms
  by (auto simp: MVL_exists_def MVL_openRead_def split: prod.splits option.splits if_splits)

lemma mvl_exists_openRead_missing:
  assumes "snd (mvl_find_entry info nm) = Inl err"
  shows "\<not> MVL_exists info nm" and "MVL_openRead w info nm m1 m2 = (w, False, Inl err)"
  using assms by (auto simp: MVL_exists_def MVL_openRead_def)

text \<open>
  Claim C1, as amended. GRP: for a container loaded from an archive with fewer than
  \<open>2^31\<close> entries, every name of the on-disk table (as normalised by the loader) that
  passes the checks of lookup (no \<^verbatim>\<open>/\<close>, at most 3 characters after a \<^verbatim>\<open>.\<close>; a
  GRP name never exceeds 12 characters) is found: lookup returns a record of the table with
  exactly that name (the record itself when names are unique), \<^verbatim>\<open>exists\<close> is true and
  a handle that \<^verbatim>\<open>openRead\<close> returns is on that record at cursor 0. Every name that is
  not in the table fails with \<open>ERR_NO_SUCH_FILE\<close> in all three. MVL: the same, with
  names of at most 12 characters compared by the case-insensitive comparison, for a
  container whose entry array is ordered under that comparison.
\<close>

theorem lookup_after_load:
  "(grp_load_entries w fname forWriting malloc_ok info0 = (w', Inr info)
      \<and> unat (entryCount info) < 2 ^ 31 \<longrightarrow>
      (\<exists>es. grp_disk_order w fname = Inr es \<and> mset (entries info) = mset es
        \<and> (\<forall>nm. nm \<in> name ` set es \<and> CHR ''/'' \<notin> set nm
                 \<and> \<not> (\<exists>pre suf. nm = pre @ CHR ''.'' # suf \<and> 3 < length suf) \<longrightarrow>
              (\<exists>e\<in>set es. name e = nm
                 \<and> snd (grp_find_entry info nm) = Inr e
                 \<and> GRP_exists info nm
                 \<and> fst (snd (GRP_openRead w2 info nm m1 m2))
                 \<and> (\<forall>f. snd (snd (GRP_openRead w2 info nm m1 m2)) = Inr f \<longrightarrow>
                        entry f = e \<and> curPos f = 0)))
        \<and> (distinct (map name es) \<longrightarrow>
              (\<forall>e. e \<in> set es \<and> CHR ''/'' \<notin> set (name e)
                   \<and> \<not> (\<exists>pre suf. name e = pre @ CHR ''.'' # suf \<and> 3 < length suf) \<longrightarrow>
                 snd (grp_find_entry info (name e)) = Inr e))
        \<and> (\<forall>nm. nm \<notin> name ` set es \<longrightarrow>
              snd (grp_find_entry info nm) = Inl ERR_NO_SUCH_FILE
              \<and> \<not> GRP_exists info nm
              \<and> GRP_openRead w2 info nm m1 m2 = (w2, False, Inl ERR_NO_SUCH_FILE))))
   \<and> (mvl_load_entries w fname forWriting malloc_ok info0 = (w', Inr info)
      \<and> unat (entryCount info) < 2 ^ 31
      \<and> sorted_wrt (\<lambda>x y. platformStricmp (name x) (name y) \<le> 0) (entries info) \<longrightarrow>
      (\<exists>es. mvl_disk_order w fname = Inr es \<and> mset (entries info) = mset es
        \<and> (\<forall>nm. (\<exists>e\<in>set es. platformStricmp nm (name e) = 0) \<and> length nm \<le> 12
                 \<and> CHR ''/'' \<notin> set nm
                 \<and> \<not> (\<exists>pre suf. nm = pre @ CHR ''.'' # suf \<and> 3 < length suf) \<longrightarrow>
              (\<exists>e\<in>set es. platformStricmp nm (name e) = 0
                 \<and> snd (mvl_find_entry info nm) = Inr e
                 \<and> MVL_exists info nm
                 \<and> fst (snd (MVL_openRead w2 info nm m1 m2))
                 \<and> (\<forall>f. snd (snd (MVL_openRead w2 info nm m1 m2)) = Inr f \<longrightarrow>
                        entry f = e \<and> curPos f = 0)))
        \<and> (\<forall>nm. \<not> (\<exists>e\<in>set es. platformStricmp nm (name e) = 0) \<longrightarrow>
              snd (mvl_find_entry info nm) = Inl ERR_NO_SUCH_FILE
              \<and> \<not> MVL_exists info nm
              \<and> MVL_openRead w2 info nm m1 m2 = (w2, False, Inl ERR_NO_SUCH_FILE))))"
proof (intro conjI impI)
  assume "grp_load_entries w fname forWriting malloc_ok info0 = (w', Inr info)
      \<and> unat (entryCount info) < 2 ^ 31"
  then obtain es where d: "grp_disk_order w fname = Inr es" "mset (entries info) = mset es"
    and hit: "\<And>nm. nm \<in> name ` set es \<and> CHR ''/'' \<notin> set nm
              \<and> \<not> (\<exists>pre suf. nm = pre @ CHR ''.'' # suf \<and> 3 < length suf) \<Longrightarrow>
            \<exists>e\<in>set es. snd (grp_find_entry info nm) = Inr e \<and> name e = nm"
    and miss: "\<And>nm. nm \<notin> name ` set es \<Longrightarrow> snd (grp_find_entry info nm) = Inl ERR_NO_SUCH_FILE"
    using grp_lookup_loaded [of w fname forWriting malloc_ok info0 w' info] by blast
  have h: "\<exists>e\<in>set es. name e = nm
                 \<and> snd (grp_find_entry info nm) = Inr e
                 \<and> GRP_exists info nm
                 \<and> fst (snd (GRP_openRead w2 info nm m1 m2))
                 \<and> (\<forall>f. snd (snd (GRP_openRead w2 info nm m1 m2)) = Inr f \<longrightarrow>
                        entry f = e \<and> curPos f = 0)"
    if "nm \<in> name ` set es \<and> CHR ''/'' \<notin> set nm
              \<and> \<not> (\<exists>pre suf. nm = pre @ CHR ''.'' # suf \<and> 3 < length suf)" for nm
  proof -
    from hit [OF that] obtain e where e: "e \<in> set es" "snd (grp_find_entry info nm) = Inr e"
      "name e = nm" by blast
    from exists_openRead_found [OF e(2)] e show ?thesis by blast
  qed
  have ms: "snd (grp_find_entry info nm) = Inl ERR_NO_SUCH_FILE
              \<and> \<not> GRP_exists info nm
              \<and> GRP_openRead w2 info nm m1 m2 = (w2, False, Inl ERR_NO_SUCH_FILE)"
    if "nm \<notin> name ` set es" for nm
    using miss [OF that] exists_openRead_missing [OF miss [OF that]] by blast
  have u: "snd (grp_find_entry info (name e)) = Inr e"
    if "distinct (map name es)" "e \<in> set es \<and> CHR ''/'' \<notin> set (name e)
                   \<and> \<not> (\<exists>pre suf. name e = pre @ CHR ''.'' # suf \<and> 3 < length suf)" for e
  proof -
    from that(2) have "name e \<in> name ` set es \<and> CHR ''/'' \<notin> set (name e)
              \<and> \<not> (\<exists>pre suf. name e = pre @ CHR ''.'' # suf \<and> 3 < length suf)" by simp
    from hit [OF this] obtain e' where
      e': "e' \<in> set es" "snd (grp_find_entry info (name e)) = Inr e'" "name e' = name e"
      by blast
    from distinct_names_unique [OF that(1) _ e'(1,3)] that(2) have "e' = e" by simp
    with e'(2) show ?thesis by simp
  qed
  from d h ms u show "\<exists>es. grp_disk_order w fname = Inr es \<and> mset (entries info) = mset es
        \<and> (\<forall>nm. nm \<in> name ` set es \<and> CHR ''/'' \<notin> set nm
                 \<and> \<not> (\<exists>pre suf. nm = pre @ CHR ''.'' # suf \<and> 3 < length suf) \<longrightarrow>
              (\<exists>e\<in>set es. name e = nm
                 \<and> snd (grp_find_entry info nm) = Inr e
                 \<and> GRP_exists info nm
                 \<and> fst (snd (GRP_openRead w2 info nm m1 m2))
                 \<and> (\<forall>f. snd (snd (GRP_openRead w2 info nm m1 m2)) = Inr f \<longrightarrow>
                        entry f = e \<and> curPos f = 0)))
        \<and> (distinct (map name es) \<longrightarrow>
              (\<forall>e. e \<in> set es \<and> CHR ''/'' \<notin> set (name e)
                   \<and> \<not> (\<exists>pre suf. name e = pre @ CHR ''.'' # suf \<and> 3 < length suf) \<longrightarrow>
                 snd (grp_find_entry info (name e)) = Inr e))
        \<and> (\<forall>nm. nm \<notin> name ` set es \<longrightarrow>
              snd (grp_find_entry info nm) = Inl ERR_NO_SUCH_FILE
              \<and> \<not> GRP_exists info nm
              \<and> GRP_openRead w2 info nm m1 m2 = (w2, False, Inl ERR_NO_SUCH_FILE))"
    by blast
next
  assume "mvl_load_entries w fname forWriting malloc_ok info0 = (w', Inr info)
      \<and> unat (entryCount info) < 2 ^ 31
      \<and> sorted_wrt (\<lambda>x y. platformStricmp (name x) (name y) \<le> 0) (entries info)"
  then obtain es where d: "mvl_disk_order w fname = Inr es" "mset (entries info) = mset es"
    and hit: "\<And>nm. (\<exists>e\<in>set es. platformStricmp nm (name e) = 0) \<and> length nm \<le> 12
              \<and> CHR ''/'' \<notin> set nm
              \<and> \<not> (\<exists>pre suf. nm = pre @ CHR ''.'' # suf \<and> 3 < length suf) \<Longrightarrow>
            \<exists>e\<in>set es. snd (mvl_find_entry info nm) = Inr e \<and> platformStricmp nm (name e) = 0"
    and miss: "\<And>nm. \<not> (\<exists>e\<in>set es. platformStricmp nm (name e) = 0) \<Longrightarrow>
            snd (mvl_find_entry info nm) = Inl ERR_NO_SUCH_FILE"
    using mvl_lookup_loaded [of w fname forWriting malloc_ok info0 w' info] by blast
  have h: "\<exists>e\<in>set es. platformStricmp nm (name e) = 0
                 \<and> snd (mvl_find_entry info nm) = Inr e
                 \<and> MVL_exists info nm
                 \<and> fst (snd (MVL_openRead w2 info nm m1 m2))
                 \<and> (\<forall>f. snd (snd (MVL_openRead w2 info nm m1 m2)) = Inr f \<longrightarrow>
                        entry f = e \<and> curPos f = 0)"
    if "(\<exists>e\<in>set es. platformStricmp nm (name e) = 0) \<and> length nm \<le> 12
              \<and> CHR ''/'' \<notin> set nm
              \<and> \<not> (\<exists>pre suf. nm = pre @ CHR ''.'' # suf \<and> 3 < length suf)" for nm
  proof -
    from hit [OF that] obtain e where e: "e \<in> set es" "snd (mvl_find_entry info nm) = Inr e"
      "platformStricmp nm (name e) = 0" by blast
    from mvl_exists_openRead_found [OF e(2)] e show ?thesis by blast
  qed
  have ms: "snd (mvl_find_entry info nm) = Inl ERR_NO_SUCH_FILE
              \<and> \<not> MVL_exists info nm
              \<and> MVL_openRead w2 info nm m1 m2 = (w2, False, Inl ERR_NO_SUCH_FILE)"
    if "\<not> (\<exists>e\<in>set es. platformStricmp nm (name e) = 0)" for nm
    using miss [OF that] mvl_exists_openRead_missing [OF miss [OF that]] by blast
  from d h ms show "\<exists>es. mvl_disk_order w fname = Inr es \<and> mset (entries info) = mset es
        \<and> (\<forall>nm. (\<exists>e\<in>set es. platformStricmp nm (name e) = 0) \<and> length nm \<le> 12
                 \<and> CHR ''/'' \<notin> set nm
                 \<and> \<not> (\<exists>pre suf. nm = pre @ CHR ''.'' # suf \<and> 3 < length suf) \<longrightarrow>
              (\<exists>e\<in>set es. platformStricmp nm (name e) = 0
                 \<and> snd (mvl_find_entry info nm) = Inr e
                 \<and> MVL_exists info nm
                 \<and> fst (snd (MVL_openRead w2 info nm m1 m2))
                 \<and> (\<forall>f. snd (snd (MVL_openRead w2 info nm m1 m2)) = Inr f \<longrightarrow>
                        entry f = e \<and> curPos f = 0)))
        \<and> (\<forall>nm. \<not> (\<exists>e\<in>set es. platformStricmp nm (name e) = 0) \<longrightarrow>
              snd (mvl_find_entry info nm) = Inl ERR_NO_SUCH_FILE
              \<and> \<not> MVL_exists info nm
              \<and> MVL_openRead w2 info nm m1 m2 = (w2, False, Inl ERR_NO_SUCH_FILE))"
    by blast
qed


section \<open>The sample archives, loaded\<close>

text \<open>
  Each sample archive is loaded by rewriting with the closed forms above; the results are
  the containers named in the section on sample archives.
\<close>

lemma demo_world_closed:
  "demo_world\<lparr>w_open := (w_open demo_world)(w_next demo_world := None),
              w_next := Suc (w_next demo_world)\<rparr> = loaded_world"
  by (simp add: demo_world_def loaded_world_def)

lemma demo_grp_load:
  "grp_load_entries demo_world ''demo.grp'' False True blank_info = (loaded_world, Inr demo_grp_info)"
  "grp_disk_order demo_world ''demo.grp'' = Inr [zebra, apple]"
proof -
  have 1: "16 \<le> length demo_grp" by (simp add: demo_grp_def)
  have 2: "take 12 demo_grp = ''KenSilverman''" by (simp add: demo_grp_def)
  have 3: "swapULE32 (take 4 (drop 12 demo_grp)) = 2" by (simp add: demo_grp_def swapULE32_def)
  have 4: "unat (2 :: uint32) = Suc (Suc 0)" by simp
  have 5: "grp_parse (drop 16 demo_grp) (Suc (Suc 0)) (16 + 16 * 2) = Some [zebra, apple]"
    by (simp add: demo_grp_def swapULE32_def zebra_def apple_def)
  have 6: "PHYSFS_sort [zebra, apple] (Suc (Suc 0)) grp_entry_cmp grp_entry_swap = [apple, zebra]"
    by (simp add: sort_defs zebra_def apple_def)
  note e = grp_load_entries_eval [OF demo_files(1) 1 2 3 4 5 6]
  show "grp_load_entries demo_world ''demo.grp'' False True blank_info = (loaded_world, Inr demo_grp_info)"
    using e(1) [of blank_info] unfolding demo_world_closed
    by (simp add: blank_info_def demo_grp_info_def)
  show "grp_disk_order demo_world ''demo.grp'' = Inr [zebra, apple]" by (rule e(2))
qed

lemma zero_grp_load:
  "grp_load_entries demo_world ''zero.grp'' False True blank_info = (loaded_world, Inr zero_info)"
  "grp_disk_order demo_world ''zero.grp'' = Inr [empty_A, empty_B]"
proof -
  have 1: "16 \<le> length zero_grp" by (simp add: zero_grp_def)
  have 2: "take 12 zero_grp = ''KenSilverman''" by (simp add: zero_grp_def)
  have 3: "swapULE32 (take 4 (drop 12 zero_grp)) = 2" by (simp add: zero_grp_def swapULE32_def)
  have 4: "unat (2 :: uint32) = Suc (Suc 0)" by simp
  have 5: "grp_parse (drop 16 zero_grp) (Suc (Suc 0)) (16 + 16 * 2) = Some [empty_A, empty_B]"
    by (simp add: zero_grp_def swapULE32_def empty_A_def empty_B_def)
  have 6: "PHYSFS_sort [empty_A, empty_B] (Suc (Suc 0)) grp_entry_cmp grp_entry_swap = [empty_A, empty_B]"
    by (simp add: sort_defs empty_A_def empty_B_def)
  note e = grp_load_entries_eval [OF demo_files(2) 1 2 3 4 5 6]
  show "grp_load_entries demo_world ''zero.grp'' False True blank_info = (loaded_world, Inr zero_info)"
    using e(1) [of blank_info] unfolding demo_world_closed
    by (simp add: blank_info_def zero_info_def)
  show "grp_disk_order demo_world ''zero.grp'' = Inr [empty_A, empty_B]" by (rule e(2))
qed

lemma longext_grp_load:
  "grp_load_entries demo_world ''longext.grp'' False True blank_info = (loaded_world, Inr longext_info)"
  "grp_disk_order demo_world ''longext.grp'' = Inr [demo_longext]"
proof -
  have 1: "16 \<le> length longext_grp" by (simp add: longext_grp_def)
  have 2: "take 12 longext_grp = ''KenSilverman''" by (simp add: longext_grp_def)
  have 3: "swapULE32 (take 4 (drop 12 longext_grp)) = 1" by (simp add: longext_grp_def swapULE32_def)
  have 4: "unat (1 :: uint32) = Suc 0" by simp
  have 5: "grp_parse (drop 16 longext_grp) (Suc 0) (16 + 16 * 1) = Some [demo_longext]"
    by (simp add: longext_grp_def swapULE32_def demo_longext_def)
  have 6: "PHYSFS_sort [demo_longext] (Suc 0) grp_entry_cmp grp_entry_swap = [demo_longext]"
    by (simp add: sort_defs demo_longext_def)
  note e = grp_load_entries_eval [OF demo_files(3) 1 2 3 4 5 6]
  show "grp_load_entries demo_world ''longext.grp'' False True blank_info = (loaded_world, Inr longext_info)"
    using e(1) [of blank_info] unfolding demo_world_closed
    by (simp add: blank_info_def longext_info_def)
  show "grp_disk_order demo_world ''longext.grp'' = Inr [demo_longext]" by (rule e(2))
qed

lemma empty_grp_load:
  "grp_load_entries demo_world ''empty.grp'' False True blank_info = (loaded_world, Inr blank_info)"
  "grp_disk_order demo_world ''empty.grp'' = Inr []"
proof -
  have 1: "16 \<le> length empty_grp" by (simp add: empty_grp_def)
  have 2: "take 12 empty_grp = ''KenSilverman''" by (simp add: empty_grp_def)
  have 3: "swapULE32 (take 4 (drop 12 empty_grp)) = 0" by (simp add: empty_grp_def swapULE32_def)
  have 4: "unat (0 :: uint32) = 0" by simp
  have 5: "grp_parse (drop 16 empty_grp) (0) (16 + 16 * 0) = Some []"
    by (simp add: empty_grp_def swapULE32_def blank_info_def)
  have 6: "PHYSFS_sort [] (0) grp_entry_cmp grp_entry_swap = []"
    by (simp add: sort_defs blank_info_def)
  note e = grp_load_entries_eval [OF demo_files(4) 1 2 3 4 5 6]
  show "grp_load_entries demo_world ''empty.grp'' False True blank_info = (loaded_world, Inr blank_info)"
    using e(1) [of blank_info] unfolding demo_world_closed
    by (simp add: blank_info_def )
  show "grp_disk_order demo_world ''empty.grp'' = Inr []" by (rule e(2))
qed

lemma demo_mvl_load:
  "mvl_load_entries demo_world ''demo.mvl'' False True blank_info = (loaded_world, Inr demo_mvl_info)"
  "mvl_disk_order demo_world ''demo.mvl'' = Inr [intro_mve, end_mve]"
proof -
  have 1: "8 \<le> length demo_mvl" by (simp add: demo_mvl_def)
  have 2: "take 4 demo_mvl = ''DMVL''" by (simp add: demo_mvl_def)
  have 3: "swapULE32 (take 4 (drop 4 demo_mvl)) = 2" by (simp add: demo_mvl_def swapULE32_def)
  have 4: "unat (2 :: uint32) = Suc (Suc 0)" by simp
  have 5: "mvl_parse (drop 8 demo_mvl) (Suc (Suc 0)) (8 + 17 * 2) = Some [intro_mve, end_mve]"
    by (simp add: demo_mvl_def swapULE32_def intro_mve_def end_mve_def)
  have 6: "PHYSFS_sort [intro_mve, end_mve] (Suc (Suc 0)) mvl_entry_cmp mvl_entry_swap = [end_mve, intro_mve]"
    by (simp add: sort_defs intro_mve_def end_mve_def)
  note e = mvl_load_entries_eval [OF demo_files(5) 1 2 3 4 5 6]
  show "mvl_load_entries demo_world ''demo.mvl'' False True blank_info = (loaded_world, Inr demo_mvl_info)"
    using e(1) [of blank_info] unfolding demo_world_closed
    by (simp add: blank_info_def demo_mvl_info_def)
  show "mvl_disk_order demo_world ''demo.mvl'' = Inr [intro_mve, end_mve]" by (rule e(2))
qed

lemma mixed_mvl_load:
  "mvl_load_entries demo_world ''mixed.mvl'' False True blank_info = (loaded_world, Inr mixed_mvl_info)"
  "mvl_disk_order demo_world ''mixed.mvl'' = Inr [entry_a, entry_B]"
proof -
  have 1: "8 \<le> length mixed_mvl" by (simp add: mixed_mvl_def)
  have 2: "take 4 mixed_mvl = ''DMVL''" by (simp add: mixed_mvl_def)
  have 3: "swapULE32 (take 4 (drop 4 mixed_mvl)) = 2" by (simp add: mixed_mvl_def swapULE32_def)
  have 4: "unat (2 :: uint32) = Suc (Suc 0)" by simp
  have 5: "mvl_parse (drop 8 mixed_mvl) (Suc (Suc 0)) (8 + 17 * 2) = Some [entry_a, entry_B]"
    by (simp add: mixed_mvl_def swapULE32_def entry_a_def entry_B_def)
  have 6: "PHYSFS_sort [entry_a, entry_B] (Suc (Suc 0)) mvl_entry_cmp mvl_entry_swap = [entry_B, entry_a]"
    by (simp add: sort_defs entry_a_def entry_B_def)
  note e = mvl_load_entries_eval [OF demo_files(6) 1 2 3 4 5 6]
  show "mvl_load_entries demo_world ''mixed.mvl'' False True blank_info = (loaded_world, Inr mixed_mvl_info)"
    using e(1) [of blank_info] unfolding demo_world_closed
    by (simp add: blank_info_def mixed_mvl_info_def)
  show "mvl_disk_order demo_world ''mixed.mvl'' = Inr [entry_a, entry_B]" by (rule e(2))
qed

lemma empty_mvl_load:
  "mvl_load_entries demo_world ''empty.mvl'' False True blank_info = (loaded_world, Inr blank_info)"
  "mvl_disk_order demo_world ''empty.mvl'' = Inr []"
proof -
  have 1: "8 \<le> length empty_mvl" by (simp add: empty_mvl_def)
  have 2: "take 4 empty_mvl = ''DMVL''" by (simp add: empty_mvl_def)
  have 3: "swapULE32 (take 4 (drop 4 empty_mvl)) = 0" by (simp add: empty_mvl_def swapULE32_def)
  have 4: "unat (0 :: uint32) = 0" by simp
  have 5: "mvl_parse (drop 8 empty_mvl) (0) (8 + 17 * 0) = Some []"
    by (simp add: empty_mvl_def swapULE32_def blank_info_def)
  have 6: "PHYSFS_sort [] (0) mvl_entry_cmp mvl_entry_swap = []"
    by (simp add: sort_defs blank_info_def)
  note e = mvl_load_entries_eval [OF demo_files(7) 1 2 3 4 5 6]
  show "mvl_load_entries demo_world ''empty.mvl'' False True blank_info = (loaded_world, Inr blank_info)"
    using e(1) [of blank_info] unfolding demo_world_closed
    by (simp add: blank_info_def )
  show "mvl_disk_order demo_world ''empty.mvl'' = Inr []" by (rule e(2))
qed

lemma stricmp_samples:
  "platformStricmp ''Intro.MVE'' ''intro.mve'' = 0"
  "platformStricmp ''Intro.MVE'' ''END.MVE'' \<noteq> 0"
  "platformStricmp ''END.MVE'' ''intro.mve'' \<le> 0"
  "0 < platformStricmp ''B'' ''a''"
  "platformStricmp ''a'' ''B'' < 0"
  "platformStricmp ''credits.mve'' ''intro.mve'' \<noteq> 0"
  "platformStricmp ''credits.mve'' ''END.MVE'' \<noteq> 0"
  by code_simp+

lemma no_long_extension:
  "CHR ''.'' \<notin> set nm \<Longrightarrow> \<not> (\<exists>pre suf. nm = pre @ CHR ''.'' # suf \<and> 3 < length suf)"
  by auto


subsection \<open>Offsets of the samples\<close>

theorem start_positions_on_disk_witness:
  "grp_load_entries demo_world ''demo.grp'' False True blank_info = (loaded_world, Inr demo_grp_info)
   \<and> grp_disk_order demo_world ''demo.grp'' = Inr [zebra, apple]
   \<and> startPos zebra = 16 + 16 * entryCount demo_grp_info
   \<and> startPos apple = startPos zebra + size' zebra
   \<and> 16 + 16 * unat (entryCount demo_grp_info) + (\<Sum>e\<leftarrow>[zebra, apple]. unat (size' e)) < 2 ^ 32
   \<and> unat (startPos zebra) + unat (size' zebra) \<le> unat (startPos apple)
   \<and> startPos zebra < startPos apple
   \<and> mvl_load_entries demo_world ''demo.mvl'' False True blank_info = (loaded_world, Inr demo_mvl_info)
   \<and> mvl_disk_order demo_world ''demo.mvl'' = Inr [intro_mve, end_mve]
   \<and> startPos intro_mve = 8 + 17 * entryCount demo_mvl_info
   \<and> startPos end_mve = startPos intro_mve + size' intro_mve"
proof -
  note g = demo_grp_load
  note m = demo_mvl_load
  from start_positions_on_disk [THEN conjunct1, rule_format, OF g(1)] obtain es where
    es: "grp_disk_order demo_world ''demo.grp'' = Inr es"
    and f0: "es \<noteq> [] \<longrightarrow> startPos (es ! 0) = 16 + 16 * entryCount demo_grp_info"
    and f1: "\<forall>k. Suc k < length es \<longrightarrow> startPos (es ! Suc k) = startPos (es ! k) + size' (es ! k)"
    and f2: "16 + 16 * unat (entryCount demo_grp_info) + (\<Sum>e\<leftarrow>es. unat (size' e)) < 2 ^ 32 \<longrightarrow>
               (\<forall>i j. i < j \<and> j < length es \<longrightarrow>
                  unat (startPos (es ! i)) + unat (size' (es ! i)) \<le> unat (startPos (es ! j))
                  \<and> (size' (es ! i) \<noteq> 0 \<longrightarrow> startPos (es ! i) < startPos (es ! j)))"
    by blast
  from es g(2) have e: "es = [zebra, apple]" by simp
  have nw: "16 + 16 * unat (entryCount demo_grp_info) + (\<Sum>e\<leftarrow>[zebra, apple]. unat (size' e)) < 2 ^ 32"
    by (simp add: demo_grp_info_def zebra_def apple_def)
  have c0: "startPos zebra = 16 + 16 * entryCount demo_grp_info" using f0 e by simp
  have c1: "startPos apple = startPos zebra + size' zebra" using f1 [rule_format, of 0] e by simp
  have c2: "unat (startPos zebra) + unat (size' zebra) \<le> unat (startPos apple)
      \<and> startPos zebra < startPos apple"
    using f2 [rule_format, OF _ conjI [of "0 < Suc 0" "Suc 0 < length es"]] nw e
    by (simp add: zebra_def)
  from start_positions_on_disk [THEN conjunct2, rule_format, OF m(1)] obtain ms where
    ms: "mvl_disk_order demo_world ''demo.mvl'' = Inr ms"
    and h0: "ms \<noteq> [] \<longrightarrow> startPos (ms ! 0) = 8 + 17 * entryCount demo_mvl_info"
    and h1: "\<forall>k. Suc k < length ms \<longrightarrow> startPos (ms ! Suc k) = startPos (ms ! k) + size' (ms ! k)"
    by blast
  from ms m(2) have me: "ms = [intro_mve, end_mve]" by simp
  have d0: "startPos intro_mve = 8 + 17 * entryCount demo_mvl_info" using h0 me by simp
  have d1: "startPos end_mve = startPos intro_mve + size' intro_mve"
    using h1 [rule_format, of 0] me by simp
  from g m nw c0 c1 c2 d0 d1 show ?thesis by blast
qed

theorem start_positions_counterexample:
  "grp_load_entries demo_world ''zero.grp'' False True blank_info = (loaded_world, Inr zero_info)
   \<and> grp_disk_order demo_world ''zero.grp'' = Inr [empty_A, empty_B]
   \<and> \<not> startPos empty_A < startPos empty_B
   \<and> startPos empty_A = 48 \<and> startPos empty_B = 48"
  using zero_grp_load by (simp add: empty_A_def empty_B_def)


subsection \<open>Lookup in the samples\<close>

theorem lookup_after_load_witness:
  "grp_load_entries demo_world ''demo.grp'' False True blank_info = (loaded_world, Inr demo_grp_info)
   \<and> unat (entryCount demo_grp_info) < 2 ^ 31
   \<and> grp_disk_order demo_world ''demo.grp'' = Inr [zebra, apple]
   \<and> snd (grp_find_entry demo_grp_info ''APPLE'') = Inr apple
   \<and> snd (grp_find_entry demo_grp_info (name zebra)) = Inr zebra
   \<and> GRP_exists demo_grp_info ''APPLE''
   \<and> snd (grp_find_entry demo_grp_info ''PEAR'') = Inl ERR_NO_SUCH_FILE
   \<and> GRP_openRead demo_world demo_grp_info ''PEAR'' True True
        = (demo_world, False, Inl ERR_NO_SUCH_FILE)
   \<and> mvl_load_entries demo_world ''demo.mvl'' False True blank_info = (loaded_world, Inr demo_mvl_info)
   \<and> unat (entryCount demo_mvl_info) < 2 ^ 31
   \<and> sorted_wrt (\<lambda>x y. platformStricmp (name x) (name y) \<le> 0) (entries demo_mvl_info)
   \<and> mvl_disk_order demo_world ''demo.mvl'' = Inr [intro_mve, end_mve]
   \<and> snd (mvl_find_entry demo_mvl_info ''Intro.MVE'') = Inr intro_mve
   \<and> MVL_exists demo_mvl_info ''Intro.MVE''
   \<and> snd (mvl_find_entry demo_mvl_info ''credits.mve'') = Inl ERR_NO_SUCH_FILE"
proof -
  note g = demo_grp_load
  note m = demo_mvl_load
  have gs: "unat (entryCount demo_grp_info) < 2 ^ 31" by (simp add: demo_grp_info_def)
  have ms: "unat (entryCount demo_mvl_info) < 2 ^ 31" by (simp add: demo_mvl_info_def)
  have mo: "sorted_wrt (\<lambda>x y. platformStricmp (name x) (name y) \<le> 0) (entries demo_mvl_info)"
    using stricmp_samples(3) by (simp add: demo_mvl_info_def end_mve_def intro_mve_def)
  from lookup_after_load [where ?w2.0 = demo_world and ?m1.0 = True and ?m2.0 = True,
      THEN conjunct1, rule_format, OF conjI [OF g(1) gs]]
  obtain es where
    es: "grp_disk_order demo_world ''demo.grp'' = Inr es"
    and hit: "\<forall>nm. nm \<in> name ` set es \<and> CHR ''/'' \<notin> set nm
                 \<and> \<not> (\<exists>pre suf. nm = pre @ CHR ''.'' # suf \<and> 3 < length suf) \<longrightarrow>
              (\<exists>e\<in>set es. name e = nm
                 \<and> snd (grp_find_entry demo_grp_info nm) = Inr e
                 \<and> GRP_exists demo_grp_info nm
                 \<and> fst (snd (GRP_openRead demo_world demo_grp_info nm True True))
                 \<and> (\<forall>f. snd (snd (GRP_openRead demo_world demo_grp_info nm True True)) = Inr f \<longrightarrow>
                        entry f = e \<and> curPos f = 0))"
    and uniq: "distinct (map name es) \<longrightarrow>
              (\<forall>e. e \<in> set es \<and> CHR ''/'' \<notin> set (name e)
                   \<and> \<not> (\<exists>pre suf. name e = pre @ CHR ''.'' # suf \<and> 3 < length suf) \<longrightarrow>
                 snd (grp_find_entry demo_grp_info (name e)) = Inr e)"
    and miss: "\<forall>nm. nm \<notin> name ` set es \<longrightarrow>
              snd (grp_find_entry demo_grp_info nm) = Inl ERR_NO_SUCH_FILE
              \<and> \<not> GRP_exists demo_grp_info nm
              \<and> GRP_openRead demo_world demo_grp_info nm True True
                  = (demo_world, False, Inl ERR_NO_SUCH_FILE)"
    by blast
  from es g(2) have e: "es = [zebra, apple]" by simp
  have zext: "\<not> (\<exists>pre suf. name zebra = pre @ CHR ''.'' # suf \<and> 3 < length suf)"
  proof -
    have "strchr (name zebra) (CHR ''.'') = Some ''.TXT''" by (simp add: strchr_def zebra_def)
    then have "\<not> (case strchr (name zebra) (CHR ''.'') of Some p \<Rightarrow> 4 < length p | None \<Rightarrow> False)"
      by simp
    then show ?thesis unfolding strchr_long_iff .
  qed
  have "distinct (map name es)" by (simp add: e zebra_def apple_def)
  moreover have "zebra \<in> set es \<and> CHR ''/'' \<notin> set (name zebra)
      \<and> \<not> (\<exists>pre suf. name zebra = pre @ CHR ''.'' # suf \<and> 3 < length suf)"
    using zext by (simp add: e) (simp add: zebra_def)
  ultimately have z: "snd (grp_find_entry demo_grp_info (name zebra)) = Inr zebra"
    using uniq by blast
  have "''APPLE'' \<in> name ` set es \<and> CHR ''/'' \<notin> set ''APPLE''
      \<and> \<not> (\<exists>pre suf. ''APPLE'' = pre @ CHR ''.'' # suf \<and> 3 < length suf)"
    using no_long_extension [of "''APPLE''"] by (simp add: e apple_def)
  from hit [rule_format, OF this] obtain x where
    x: "x \<in> set es" "name x = ''APPLE''" "snd (grp_find_entry demo_grp_info ''APPLE'') = Inr x"
       "GRP_exists demo_grp_info ''APPLE''"
    by blast
  from x(1,2) have "x = apple" by (auto simp: e zebra_def)
  with x have a: "snd (grp_find_entry demo_grp_info ''APPLE'') = Inr apple"
    "GRP_exists demo_grp_info ''APPLE''" by simp_all
  have "''PEAR'' \<notin> name ` set es" by (simp add: e zebra_def apple_def)
  from miss [rule_format, OF this] have p:
    "snd (grp_find_entry demo_grp_info ''PEAR'') = Inl ERR_NO_SUCH_FILE"
    "GRP_openRead demo_world demo_grp_info ''PEAR'' True True
        = (demo_world, False, Inl ERR_NO_SUCH_FILE)" by simp_all
  from lookup_after_load [where ?w2.0 = demo_world and ?m1.0 = True and ?m2.0 = True,
      THEN conjunct2, rule_format, OF conjI [OF m(1) conjI [OF ms mo]]]
  obtain mes where
    mes: "mvl_disk_order demo_world ''demo.mvl'' = Inr mes"
    and mhit: "\<forall>nm. (\<exists>e\<in>set mes. platformStricmp nm (name e) = 0) \<and> length nm \<le> 12
                 \<and> CHR ''/'' \<notin> set nm
                 \<and> \<not> (\<exists>pre suf. nm = pre @ CHR ''.'' # suf \<and> 3 < length suf) \<longrightarrow>
              (\<exists>e\<in>set mes. platformStricmp nm (name e) = 0
                 \<and> snd (mvl_find_entry demo_mvl_info nm) = Inr e
                 \<and> MVL_exists demo_mvl_info nm
                 \<and> fst (snd (MVL_openRead demo_world demo_mvl_info nm True True))
                 \<and> (\<forall>f. snd (snd (MVL_openRead demo_world demo_mvl_info nm True True)) = Inr f \<longrightarrow>
                        entry f = e \<and> curPos f = 0))"
    and mmiss: "\<forall>nm. \<not> (\<exists>e\<in>set mes. platformStricmp nm (name e) = 0) \<longrightarrow>
              snd (mvl_find_entry demo_mvl_info nm) = Inl ERR_NO_SUCH_FILE
              \<and> \<not> MVL_exists demo_mvl_info nm
              \<and> MVL_openRead demo_world demo_mvl_info nm True True
                  = (demo_world, False, Inl ERR_NO_SUCH_FILE)"
    by blast
  from mes m(2) have me: "mes = [intro_mve, end_mve]" by simp
  have ext: "\<not> (\<exists>pre suf. ''Intro.MVE'' = pre @ CHR ''.'' # suf \<and> 3 < length suf)"
  proof -
    have "strchr ''Intro.MVE'' (CHR ''.'') = Some ''.MVE''" by (simp add: strchr_def)
    then have "\<not> (case strchr ''Intro.MVE'' (CHR ''.'') of Some p \<Rightarrow> 4 < length p | None \<Rightarrow> False)"
      by simp
    then show ?thesis unfolding strchr_long_iff .
  qed
  have "(\<exists>e\<in>set mes. platformStricmp ''Intro.MVE'' (name e) = 0) \<and> length ''Intro.MVE'' \<le> 12
      \<and> CHR ''/'' \<notin> set ''Intro.MVE''
      \<and> \<not> (\<exists>pre suf. ''Intro.MVE'' = pre @ CHR ''.'' # suf \<and> 3 < length suf)"
    using ext stricmp_samples(1) by (simp add: me intro_mve_def)
  from mhit [rule_format, OF this] obtain y where
    y: "y \<in> set mes" "platformStricmp ''Intro.MVE'' (name y) = 0"
       "snd (mvl_find_entry demo_mvl_info ''Intro.MVE'') = Inr y"
       "MVL_exists demo_mvl_info ''Intro.MVE''"
    by blast
  from y(1,2) have "y = intro_mve" using stricmp_samples(2) by (auto simp: me end_mve_def)
  with y have i: "snd (mvl_find_entry demo_mvl_info ''Intro.MVE'') = Inr intro_mve"
    "MVL_exists demo_mvl_info ''Intro.MVE''" by simp_all
  have "\<not> (\<exists>e\<in>set mes. platformStricmp ''credits.mve'' (name e) = 0)"
    using stricmp_samples(6,7) by (simp add: me intro_mve_def end_mve_def)
  from mmiss [rule_format, OF this]
  have c: "snd (mvl_find_entry demo_mvl_info ''credits.mve'') = Inl ERR_NO_SUCH_FILE" by simp
  from g gs a z p m ms mo i c show ?thesis by blast
qed

theorem lookup_counterexample:
  "grp_load_entries demo_world ''longext.grp'' False True blank_info = (loaded_world, Inr longext_info)
   \<and> grp_disk_order demo_world ''longext.grp'' = Inr [demo_longext]
   \<and> name demo_longext = ''DEMO.DATA''
   \<and> grp_find_entry longext_info ''DEMO.DATA'' = ([], Inl ERR_NO_SUCH_FILE)
   \<and> \<not> GRP_exists longext_info ''DEMO.DATA''"
proof -
  have "strchr ''DEMO.DATA'' (CHR ''.'') = Some ''.DATA''" by (simp add: strchr_def)
  then have "grp_find_entry longext_info ''DEMO.DATA'' = ([], Inl ERR_NO_SUCH_FILE)"
    by (simp add: grp_find_entry_def)
  then show ?thesis using longext_grp_load
    by (simp add: GRP_exists_def demo_longext_def)
qed

theorem find_entry_prechecks_witness:
  "12 < length ''ABCDEFGHIJKLM''
   \<and> grp_find_entry demo_grp_info ''ABCDEFGHIJKLM'' = ([], Inl ERR_NO_SUCH_FILE)
   \<and> CHR ''/'' \<in> set ''dir/APPLE''
   \<and> grp_find_entry demo_grp_info ''dir/APPLE'' = ([], Inl ERR_NO_SUCH_FILE)
   \<and> ''APPLE.JUICE'' = ''APPLE'' @ CHR ''.'' # ''JUICE'' \<and> 3 < length ''JUICE''
   \<and> grp_find_entry demo_grp_info ''APPLE.JUICE'' = ([], Inl ERR_NO_SUCH_FILE)
   \<and> mvl_find_entry demo_mvl_info ''APPLE.JUICE'' = ([], Inl ERR_NO_SUCH_FILE)
   \<and> GRP_openRead demo_world demo_grp_info ''APPLE.JUICE'' True True
        = (demo_world, False, Inl ERR_NO_SUCH_FILE)
   \<and> \<not> (12 < length ''APPLE'' \<or> CHR ''/'' \<in> set ''APPLE''
          \<or> (\<exists>pre suf. ''APPLE'' = pre @ CHR ''.'' # suf \<and> 3 < length suf))
   \<and> grp_find_entry demo_grp_info ''APPLE''
        = find_loop strcmp (entries demo_grp_info) ''APPLE'' 0 (sint (entryCount demo_grp_info - 1))"
proof -
  have h1: "12 < length ''ABCDEFGHIJKLM''" by simp
  have h2: "CHR ''/'' \<in> set ''dir/APPLE''" by simp
  have h3: "''APPLE.JUICE'' = ''APPLE'' @ CHR ''.'' # ''JUICE'' \<and> 3 < length ''JUICE''" by simp
  then have h3': "\<exists>pre suf. ''APPLE.JUICE'' = pre @ CHR ''.'' # suf \<and> 3 < length suf" by blast
  have h4: "\<not> (12 < length ''APPLE'' \<or> CHR ''/'' \<in> set ''APPLE''
          \<or> (\<exists>pre suf. ''APPLE'' = pre @ CHR ''.'' # suf \<and> 3 < length suf))"
    using no_long_extension [of "''APPLE''"] by simp
  note t = find_entry_prechecks [where info = demo_grp_info and w = demo_world and ?m1.0 = True
      and ?m2.0 = True]
  note u = find_entry_prechecks [where info = demo_mvl_info and w = demo_world and ?m1.0 = True
      and ?m2.0 = True]
  from t [of "''ABCDEFGHIJKLM''"] h1
  have c1: "grp_find_entry demo_grp_info ''ABCDEFGHIJKLM'' = ([], Inl ERR_NO_SUCH_FILE)" by blast
  from t [of "''dir/APPLE''"] h2
  have c2: "grp_find_entry demo_grp_info ''dir/APPLE'' = ([], Inl ERR_NO_SUCH_FILE)" by blast
  from t [of "''APPLE.JUICE''"] h3'
  have c3: "grp_find_entry demo_grp_info ''APPLE.JUICE'' = ([], Inl ERR_NO_SUCH_FILE)"
    "GRP_openRead demo_world demo_grp_info ''APPLE.JUICE'' True True
        = (demo_world, False, Inl ERR_NO_SUCH_FILE)" by blast+
  from u [of "''APPLE.JUICE''"] h3'
  have c4: "mvl_find_entry demo_mvl_info ''APPLE.JUICE'' = ([], Inl ERR_NO_SUCH_FILE)" by blast
  from t [of "''APPLE''"] h4
  have c5: "grp_find_entry demo_grp_info ''APPLE''
        = find_loop strcmp (entries demo_grp_info) ''APPLE'' 0 (sint (entryCount demo_grp_info - 1))"
    by blast
  from h1 h2 h3 h4 c1 c2 c3 c4 c5 show ?thesis by blast
qed

theorem empty_archive_lookup_witness:
  "grp_load_entries demo_world ''empty.grp'' False True blank_info = (loaded_world, Inr blank_info)
   \<and> mvl_load_entries demo_world ''empty.mvl'' False True blank_info = (loaded_world, Inr blank_info)
   \<and> entryCount blank_info = 0
   \<and> sint (entryCount blank_info - 1) = - 1
   \<and> grp_find_entry blank_info ''APPLE'' = ([], Inl ERR_NO_SUCH_FILE)
   \<and> mvl_find_entry blank_info ''APPLE'' = ([], Inl ERR_NO_SUCH_FILE)
   \<and> \<not> GRP_exists blank_info ''APPLE''
   \<and> GRP_openRead demo_world blank_info ''APPLE'' True True
        = (demo_world, False, Inl ERR_NO_SUCH_FILE)"
proof -
  have z: "entryCount blank_info = 0" by (simp add: blank_info_def)
  from empty_archive_lookup [OF z, of "''APPLE''" demo_world True True]
    empty_grp_load(1) empty_mvl_load(1) z
  show ?thesis by simp
qed


subsection \<open>The order of a loaded MVL container\<close>

text \<open>
  What holds of the order after loading: both loaders sort with \<^verbatim>\<open>strcmp\<close>, so the array
  is ascending byte-wise, for GRP and for MVL alike.
\<close>

lemma loaded_entries_sorted_strcmp:
  "grp_load_entries w fname forWriting malloc_ok info = (w', Inr info') \<Longrightarrow>
     sorted_wrt (\<lambda>x y. strcmp (name x) (name y) \<le> 0) (entries info')"
  "mvl_load_entries w fname forWriting malloc_ok info = (w', Inr info') \<Longrightarrow>
     sorted_wrt (\<lambda>x y. strcmp (name x) (name y) \<le> 0) (entries info')"
proof -
  assume "grp_load_entries w fname forWriting malloc_ok info = (w', Inr info')"
  from grp_load_layout [OF this] obtain es where
    "entries info' = PHYSFS_sort es (length es) grp_entry_cmp grp_entry_swap" by blast
  then show "sorted_wrt (\<lambda>x y. strcmp (name x) (name y) \<le> 0) (entries info')"
    using PHYSFS_sort_grp [of es] by (simp add: sorted_map strcmp_le_iff)
next
  assume "mvl_load_entries w fname forWriting malloc_ok info = (w', Inr info')"
  from mvl_load_layout [OF this] obtain es where
    "entries info' = PHYSFS_sort es (length es) grp_entry_cmp grp_entry_swap" by blast
  then show "sorted_wrt (\<lambda>x y. strcmp (name x) (name y) \<le> 0) (entries info')"
    using PHYSFS_sort_grp [of es] by (simp add: sorted_map strcmp_le_iff)
qed

text \<open>
  Claim C2, at the MVL archive \<^verbatim>\<open>mixed.mvl\<close>, whose table lists \<^verbatim>\<open>a\<close> and then
  \<^verbatim>\<open>B\<close>. The loader sorts with \<^verbatim>\<open>mvl_entry_cmp\<close>, that is \<^verbatim>\<open>strcmp\<close>, and the
  container holds \<^verbatim>\<open>B\<close> before \<^verbatim>\<open>a\<close>. Under the comparison \<^verbatim>\<open>mvl_find_entry\<close> uses,
  entry 0 is greater than entry 1: the array is not ascending in the case-insensitive
  order, and the search for \<^verbatim>\<open>a\<close> probes index 0 only and reports
  \<open>ERR_NO_SUCH_FILE\<close>.
\<close>

theorem mvl_sorted_case_sensitive:
  "mvl_load_entries demo_world ''mixed.mvl'' False True blank_info = (loaded_world, Inr mixed_mvl_info)
   \<and> mvl_disk_order demo_world ''mixed.mvl'' = Inr [entry_a, entry_B]
   \<and> entries mixed_mvl_info = [entry_B, entry_a]
   \<and> 0 < platformStricmp (name (entries mixed_mvl_info ! 0)) (name (entries mixed_mvl_info ! 1))
   \<and> mvl_find_entry mixed_mvl_info ''a'' = ([0], Inl ERR_NO_SUCH_FILE)"
proof -
  have s: "0 < platformStricmp ''B'' ''a''" "platformStricmp ''a'' ''B'' < 0"
    by (rule stricmp_samples)+
  have "find_loop platformStricmp [entry_B, entry_a] ''a'' 0 1 = ([0], Inl ERR_NO_SUCH_FILE)"
    using s(2)
    by (subst find_loop.simps) (simp add: entry_B_def entry_a_def probe_def find_loop_empty)
  then have f: "mvl_find_entry mixed_mvl_info ''a'' = ([0], Inl ERR_NO_SUCH_FILE)"
    by (simp add: mvl_find_entry_def mixed_mvl_info_def strchr_def)
  show ?thesis using mixed_mvl_load s f
    by (simp add: mixed_mvl_info_def entry_B_def entry_a_def)
qed

end
